theory Spec2Isabelle
  imports Complex_Main
begin

section \<open>Python values, errors and built-ins\<close>

text \<open>
  The embedding follows \<^verbatim>\<open>src/kle/kle.py\<close>. Python's numbers (\<^verbatim>\<open>int\<close> and \<^verbatim>\<open>float\<close>)
  are modelled as real numbers and \<^verbatim>\<open>complex\<close> as \<^typ>\<open>complex\<close>: the geometry is the exact
  arithmetic that the floating-point code approximates, so an equation proved here is what
  the source computes up to rounding. Every \<^verbatim>\<open>raise\<close> of the source is a value \<open>Inl e\<close>.
\<close>

datatype error =
    KLEParseError nat nat  \<comment> \<open>the message's two numbers: legends got, maximum\<close>
  | Exception error        \<comment> \<open>\<^verbatim>\<open>Exception(e)\<close>: the base class, carrying \<open>e\<close> as its argument\<close>
  | TypeError
  | ValueError
  | ZeroDivisionError
  | AssertionError
  | KeyError
  | UnboundLocalError

text \<open>A decoded JSON value. A Python \<^verbatim>\<open>dict\<close> is an association list in insertion order.\<close>

datatype json =
    JNull
  | JBool bool
  | JNum real
  | JStr string
  | JArr "json list"
  | JObj "(string \<times> json) list"

fun ebind :: "error + 'a \<Rightarrow> ('a \<Rightarrow> error + 'b) \<Rightarrow> error + 'b" where
  "ebind (Inl e) f = Inl e"
| "ebind (Inr v) f = f v"

text \<open>
  The built-ins \<^verbatim>\<open>float\<close>, \<^verbatim>\<open>int\<close> and \<^verbatim>\<open>str\<close> are not code of the repository. What they do on
  a string argument (parsing a numeral) and how \<^verbatim>\<open>str\<close> prints a value are parameters of the
  model; \<open>None\<close> is Python's \<^verbatim>\<open>ValueError\<close>.
\<close>

record builtins =
  float_of_str :: "string \<Rightarrow> real option"
  int_of_str :: "string \<Rightarrow> int option"
  str_of :: "json \<Rightarrow> string"

fun py_float :: "builtins \<Rightarrow> json \<Rightarrow> error + real" where
  "py_float py (JNum n) = Inr n"
| "py_float py (JBool b) = Inr (if b then 1 else 0)"
| "py_float py (JStr s) = (case float_of_str py s of None \<Rightarrow> Inl ValueError | Some v \<Rightarrow> Inr v)"
| "py_float py JNull = Inl TypeError"
| "py_float py (JArr xs) = Inl TypeError"
| "py_float py (JObj kvs) = Inl TypeError"

fun py_int :: "builtins \<Rightarrow> json \<Rightarrow> error + int" where
  "py_int py (JNum n) = Inr (if 0 \<le> n then \<lfloor>n\<rfloor> else \<lceil>n\<rceil>)"
| "py_int py (JBool b) = Inr (if b then 1 else 0)"
| "py_int py (JStr s) = (case int_of_str py s of None \<Rightarrow> Inl ValueError | Some v \<Rightarrow> Inr v)"
| "py_int py JNull = Inl TypeError"
| "py_int py (JArr xs) = Inl TypeError"
| "py_int py (JObj kvs) = Inl TypeError"

fun py_bool :: "json \<Rightarrow> bool" where
  "py_bool JNull = False"
| "py_bool (JBool b) = b"
| "py_bool (JNum n) = (n \<noteq> 0)"
| "py_bool (JStr s) = (s \<noteq> [])"
| "py_bool (JArr xs) = (xs \<noteq> [])"
| "py_bool (JObj kvs) = (kvs \<noteq> [])"

definition dict_has :: "(string \<times> json) list \<Rightarrow> string \<Rightarrow> bool" where
  "dict_has obj k = (k \<in> fst ` set obj)"

definition dict_get :: "(string \<times> json) list \<Rightarrow> string \<Rightarrow> error + json" where
  "dict_get obj k = (case map_of obj k of None \<Rightarrow> Inl KeyError | Some v \<Rightarrow> Inr v)"

definition nl :: char where
  "nl = CHR 0x0A"

text \<open>\<^verbatim>\<open>text.split("\n")\<close>: always at least one segment.\<close>

fun split_nl :: "string \<Rightarrow> string list" where
  "split_nl [] = [[]]"
| "split_nl (c # cs) =
     (if c = nl then [] # split_nl cs
      else (case split_nl cs of [] \<Rightarrow> [[c]] | s # ss \<Rightarrow> (c # s) # ss))"

text \<open>\<^verbatim>\<open>s.strip("\n")\<close>: newlines are removed at both ends.\<close>

definition strip_nl :: "string \<Rightarrow> string" where
  "strip_nl s = rev (dropWhile (\<lambda>c. c = nl) (rev (dropWhile (\<lambda>c. c = nl) s)))"

section \<open>Points and rotation\<close>

definition rotate_complex :: "real \<Rightarrow> complex" where
  "rotate_complex radians = exp (complex_of_real radians * \<i>)"

datatype Point = Point (point_x: real) (point_y: real)

section \<open>Property objects\<close>

record KeyProperties =
  kp_x :: real
  kp_y :: real
  kp_w :: real
  kp_h :: real
  kp_x2 :: "real option"
  kp_y2 :: "real option"
  kp_w2 :: "real option"
  kp_h2 :: "real option"
  kp_rx :: "real option"
  kp_ry :: "real option"
  kp_stepped :: bool
  kp_homing :: bool
  kp_decal :: bool

text \<open>\<^verbatim>\<open>KeyProperties()\<close>: every argument at its default.\<close>

definition KeyProperties_init :: KeyProperties where
  "KeyProperties_init =
     \<lparr>kp_x = 0, kp_y = 0, kp_w = 1, kp_h = 1,
      kp_x2 = None, kp_y2 = None, kp_w2 = None, kp_h2 = None,
      kp_rx = None, kp_ry = None,
      kp_stepped = False, kp_homing = False, kp_decal = False\<rparr>"

record KbProperties =
  kb_bg :: string
  kb_fg :: string
  kb_ghosted :: bool
  kb_profile :: "string option"
  kb_text_alignment :: "int option"
  kb_font_primary :: int
  kb_font_secondary :: int
  kb_r :: real
  kb_rx :: real
  kb_ry :: real

definition KbProperties_init :: KbProperties where
  "KbProperties_init =
     \<lparr>kb_bg = ''#ffffff'', kb_fg = ''#000000'', kb_ghosted = False,
      kb_profile = None, kb_text_alignment = None,
      kb_font_primary = 3, kb_font_secondary = 3,
      kb_r = 0, kb_rx = 0, kb_ry = 0\<rparr>"

text \<open>
  \<^verbatim>\<open>KbProperties\<close> objects are mutated in place (\<^verbatim>\<open>update\<close>) and shared by reference, so they
  live in a store: an address is an index, allocation appends.
\<close>

type_synonym addr = nat
type_synonym heap = "KbProperties list"

definition alloc :: "heap \<Rightarrow> KbProperties \<Rightarrow> addr \<times> heap" where
  "alloc hp obj = (length hp, hp @ [obj])"

section \<open>Keys\<close>

text \<open>A field \<open>k_f\<close> is the attribute \<^verbatim>\<open>self._f\<close> (or \<^verbatim>\<open>self.f\<close>) of \<^verbatim>\<open>KLEKey\<close>.\<close>

record KLEKey =
  k_u_x :: real
  k_u_y :: real
  k_u_w :: real
  k_u_h :: real
  k_spacing :: real
  k_decal :: bool
  k_properties :: addr
  k_r :: real
  k_u_rx :: real
  k_u_ry :: real
  k_legends :: "nat \<rightharpoonup> string"

text \<open>\<^verbatim>\<open>LEGEND_MAP\<close>: the twelve legend slots and their anchors, in the dictionary's order.\<close>

definition LEGEND_MAP :: "(nat \<times> (int \<times> int)) list" where
  "LEGEND_MAP =
     [(0, (-1, -1)), (1, (-1, 1)), (2, (1, -1)), (3, (1, 1)), (4, (-1, 2)), (5, (1, 2)),
      (6, (-1, 0)), (7, (1, 0)), (8, (0, -1)), (9, (0, 0)), (10, (0, 1)), (11, (0, 2))]"

text \<open>
  \<^verbatim>\<open>KLEKey.__init__\<close>. The key gets an object of its own for its properties: a new default one,
  or \<^verbatim>\<open>copy.copy(properties)\<close> (the fields are numbers, strings and booleans, so the shallow
  copy shares nothing). An address handed in is that of a live object, \<open>p < length hp\<close>.
  The second loop over \<^verbatim>\<open>self._legends\<close> changes nothing and is left out.
\<close>

definition KLEKey_init ::
  "real \<Rightarrow> real \<Rightarrow> real \<Rightarrow> real \<Rightarrow> string \<Rightarrow> addr option \<Rightarrow> bool \<Rightarrow> real \<Rightarrow> heap
     \<Rightarrow> error + (KLEKey \<times> heap)" where
  "KLEKey_init ux uy uw uh text properties decal spacing hp =
     (let (a, hp') = (case properties of
                        None \<Rightarrow> alloc hp KbProperties_init
                      | Some p \<Rightarrow> alloc hp (hp ! p));
          legends = split_nl text;
          max_legends = length LEGEND_MAP
      in if length legends > max_legends
         then Inl (Exception (KLEParseError (length legends) max_legends))
         else Inr (\<lparr>k_u_x = ux * 1, k_u_y = uy * 1, k_u_w = uw * 1, k_u_h = uh * 1,
                    k_spacing = spacing, k_decal = decal, k_properties = a,
                    k_r = kb_r (hp' ! a), k_u_rx = kb_rx (hp' ! a), k_u_ry = kb_ry (hp' ! a),
                    k_legends = fold (\<lambda>key m. m(key \<mapsto> (if key < length legends
                                                          then legends ! key else [])))
                                  [0..<max_legends] Map.empty\<rparr>, hp'))"

definition get_legend :: "KLEKey \<Rightarrow> nat \<Rightarrow> error + string" where
  "get_legend k key =
     (if key \<notin> fst ` set LEGEND_MAP then Inl AssertionError
      else (case k_legends k key of None \<Rightarrow> Inl KeyError | Some s \<Rightarrow> Inr s))"

text \<open>\<^verbatim>\<open>get_legend_str\<close>, without its \<^verbatim>\<open>print\<close>: the loop over the slots, then the strip.\<close>

fun legend_lines :: "(nat \<rightharpoonup> string) \<Rightarrow> nat list \<Rightarrow> string \<Rightarrow> error + string" where
  "legend_lines m [] result = Inr result"
| "legend_lines m (key # rest) result =
     (case m key of None \<Rightarrow> Inl KeyError
      | Some s \<Rightarrow> legend_lines m rest (result @ s @ [nl]))"

definition get_legend_str :: "KLEKey \<Rightarrow> error + string" where
  "get_legend_str k =
     ebind (legend_lines (k_legends k) [0..<length LEGEND_MAP] []) (\<lambda>result.
     Inr (strip_nl result))"

text \<open>The properties \<^verbatim>\<open>w\<close>, \<^verbatim>\<open>h\<close> and \<^verbatim>\<open>r_rad\<close> (\<^verbatim>\<open>math.radians\<close>); \<^verbatim>\<open>r\<close> is the field \<open>k_r\<close>.\<close>

definition key_w :: "KLEKey \<Rightarrow> real" where
  "key_w k = k_spacing k * k_u_w k"

definition key_h :: "KLEKey \<Rightarrow> real" where
  "key_h k = k_spacing k * k_u_h k"

definition r_rad :: "KLEKey \<Rightarrow> real" where
  "r_rad k = k_r k * pi / 180"

text \<open>A complex literal \<^verbatim>\<open>a + b*1j\<close> is \<open>Complex a b\<close>.\<close>

definition get_pos :: "KLEKey \<Rightarrow> Point" where
  "get_pos k =
     (let rpos = Complex (k_u_rx k) (k_u_ry k);
          pos = rpos + Complex (k_u_x k) (k_u_y k) * rotate_complex (r_rad k);
          pos = pos * complex_of_real (k_spacing k)
      in Point (Re pos) (Im pos))"

text \<open>\<^verbatim>\<open>Point(x, y) / self._spacing\<close> divides floats: a zero spacing raises.\<close>

definition set_pos :: "KLEKey \<Rightarrow> real \<Rightarrow> real \<Rightarrow> error + KLEKey" where
  "set_pos k x y =
     (if k_spacing k = 0 then Inl ZeroDivisionError
      else
        let u_pos = Point (x / k_spacing k) (y / k_spacing k);
            u_pos = Point (point_x u_pos - k_u_rx k) (point_y u_pos - k_u_ry k);
            u_pos = Complex (point_x u_pos) (point_y u_pos) * rotate_complex (- r_rad k)
        in Inr (k\<lparr>k_u_x := Re u_pos, k_u_y := Im u_pos\<rparr>))"

definition get_center :: "KLEKey \<Rightarrow> Point" where
  "get_center k =
     (let pos = get_pos k;
          pos = Complex (point_x pos) (point_y pos);
          center = pos + (1 / 2) * Complex (key_w k) (key_h k) * rotate_complex (r_rad k)
      in Point (Re center) (Im center))"

definition set_center :: "KLEKey \<Rightarrow> real \<Rightarrow> real \<Rightarrow> error + KLEKey" where
  "set_center k x y =
     (let new_center = Complex x y;
          corner = new_center - (1 / 2) * Complex (key_w k) (key_h k) * rotate_complex (r_rad k)
      in set_pos k (Re corner) (Im corner))"

definition set_angle :: "KLEKey \<Rightarrow> real \<Rightarrow> error + KLEKey" where
  "set_angle k new_r =
     (let pos = get_center k;
          k' = k\<lparr>k_r := new_r\<rparr>
      in set_center k' (point_x pos) (point_y pos))"

text \<open>\<^verbatim>\<open>if r:\<close> is Python's truth test: \<^verbatim>\<open>None\<close> and zero are both false.\<close>

definition truthy :: "real option \<Rightarrow> bool" where
  "truthy v = (case v of None \<Rightarrow> False | Some a \<Rightarrow> a \<noteq> 0)"

definition set_u_pos ::
  "KLEKey \<Rightarrow> real \<Rightarrow> real \<Rightarrow> real option \<Rightarrow> real option \<Rightarrow> real option \<Rightarrow> KLEKey" where
  "set_u_pos k ux uy r u_rx u_ry =
     (let k = k\<lparr>k_u_x := ux, k_u_y := uy\<rparr>;
          k = (if truthy r then k\<lparr>k_r := the r\<rparr> else k);
          k = (if truthy u_rx then k\<lparr>k_u_rx := the u_rx\<rparr> else k);
          k = (if truthy u_ry then k\<lparr>k_u_ry := the u_ry\<rparr> else k)
      in k)"



text \<open>
  One statement \<^verbatim>\<open>if 'f' in obj: target.f = conv(obj['f'])\<close> of \<^verbatim>\<open>KeyProperties.from_json\<close>
  and \<^verbatim>\<open>KbProperties.update\<close>.
\<close>

definition on_field ::
  "(string \<times> json) list \<Rightarrow> string \<Rightarrow> (json \<Rightarrow> error + 'v) \<Rightarrow> ('v \<Rightarrow> 's \<Rightarrow> 's) \<Rightarrow> 's \<Rightarrow> error + 's"
  where
  "on_field obj name conv assign target =
     (if dict_has obj name
      then ebind (dict_get obj name) (\<lambda>j. ebind (conv j) (\<lambda>v. Inr (assign v target)))
      else Inr target)"

definition KeyProperties_from_json :: "builtins \<Rightarrow> (string \<times> json) list \<Rightarrow> error + KeyProperties"
  where
  "KeyProperties_from_json py obj =
     ebind (on_field obj ''x'' (py_float py) (\<lambda>v p. p\<lparr>kp_x := v\<rparr>) KeyProperties_init) (\<lambda>props.
     ebind (on_field obj ''y'' (py_float py) (\<lambda>v p. p\<lparr>kp_y := v\<rparr>) props) (\<lambda>props.
     ebind (on_field obj ''w'' (py_float py) (\<lambda>v p. p\<lparr>kp_w := v\<rparr>) props) (\<lambda>props.
     ebind (on_field obj ''h'' (py_float py) (\<lambda>v p. p\<lparr>kp_h := v\<rparr>) props) (\<lambda>props.
     ebind (on_field obj ''x2'' (py_float py) (\<lambda>v p. p\<lparr>kp_x2 := Some v\<rparr>) props) (\<lambda>props.
     ebind (on_field obj ''y2'' (py_float py) (\<lambda>v p. p\<lparr>kp_y2 := Some v\<rparr>) props) (\<lambda>props.
     ebind (on_field obj ''w2'' (py_float py) (\<lambda>v p. p\<lparr>kp_w2 := Some v\<rparr>) props) (\<lambda>props.
     ebind (on_field obj ''h2'' (py_float py) (\<lambda>v p. p\<lparr>kp_h2 := Some v\<rparr>) props) (\<lambda>props.
     ebind (on_field obj ''d'' (\<lambda>j. Inr (py_bool j)) (\<lambda>v p. p\<lparr>kp_decal := v\<rparr>) props) (\<lambda>props.
     ebind (on_field obj ''l'' (\<lambda>j. Inr (py_bool j)) (\<lambda>v p. p\<lparr>kp_stepped := v\<rparr>) props) (\<lambda>props.
     on_field obj ''n'' (\<lambda>j. Inr (py_bool j)) (\<lambda>v p. p\<lparr>kp_homing := v\<rparr>) props))))))))))"

text \<open>
  \<^verbatim>\<open>KbProperties.update\<close> on the object's value; \<open>update_at\<close> below writes the result back
  to the object's address. A coercion that raises ends the whole parse, so the fields
  assigned before it are not kept.
\<close>

definition update :: "builtins \<Rightarrow> KbProperties \<Rightarrow> (string \<times> json) list \<Rightarrow> error + KbProperties"
  where
  "update py self obj =
     ebind (on_field obj ''c'' (\<lambda>j. Inr (str_of py j)) (\<lambda>v g. g\<lparr>kb_bg := v\<rparr>) self) (\<lambda>self.
     ebind (on_field obj ''t'' (\<lambda>j. Inr (str_of py j)) (\<lambda>v g. g\<lparr>kb_fg := v\<rparr>) self) (\<lambda>self.
     ebind (on_field obj ''g'' (\<lambda>j. Inr (py_bool j)) (\<lambda>v g. g\<lparr>kb_ghosted := v\<rparr>) self) (\<lambda>self.
     ebind (on_field obj ''a'' (py_int py) (\<lambda>v g. g\<lparr>kb_text_alignment := Some v\<rparr>) self) (\<lambda>self.
     ebind (on_field obj ''f'' (py_int py) (\<lambda>v g. g\<lparr>kb_font_primary := v\<rparr>) self) (\<lambda>self.
     ebind (on_field obj ''f2'' (py_int py) (\<lambda>v g. g\<lparr>kb_font_secondary := v\<rparr>) self) (\<lambda>self.
     ebind (on_field obj ''p'' (\<lambda>j. Inr (str_of py j)) (\<lambda>v g. g\<lparr>kb_profile := Some v\<rparr>) self) (\<lambda>self.
     ebind (on_field obj ''r'' (py_float py) (\<lambda>v g. g\<lparr>kb_r := v\<rparr>) self) (\<lambda>self.
     ebind (on_field obj ''rx'' (py_float py) (\<lambda>v g. g\<lparr>kb_rx := v\<rparr>) self) (\<lambda>self.
     on_field obj ''ry'' (py_float py) (\<lambda>v g. g\<lparr>kb_ry := v\<rparr>) self)))))))))"

definition update_at :: "builtins \<Rightarrow> heap \<Rightarrow> addr \<Rightarrow> (string \<times> json) list \<Rightarrow> error + heap" where
  "update_at py hp a obj = ebind (update py (hp ! a) obj) (\<lambda>g. Inr (hp[a := g]))"

section \<open>The keyboard\<close>

record KLEKeyboard =
  keys :: "KLEKey list"
  col :: int
  row :: int
  global_props :: addr
  cur_x :: real
  cur_y :: real
  spacing :: real
  metadata :: "(string \<times> json) list"
  priv_col :: "int option"  \<comment> \<open>the attribute \<^verbatim>\<open>_col\<close>, which only \<^verbatim>\<open>add_row\<close> creates\<close>

definition KLEKeyboard_init :: "real \<Rightarrow> heap \<Rightarrow> KLEKeyboard \<times> heap" where
  "KLEKeyboard_init sp hp =
     (let (a, hp') = alloc hp KbProperties_init
      in (\<lparr>keys = [], col = 0, row = - 1, global_props = a, cur_x = 0, cur_y = 0,
           spacing = sp, metadata = [], priv_col = None\<rparr>, hp'))"

definition add_row :: "KLEKeyboard \<Rightarrow> KLEKeyboard" where
  "add_row kb = kb\<lparr>cur_x := 0, cur_y := cur_y kb + 1, priv_col := Some 0, row := row kb + 1\<rparr>"

definition add_key ::
  "KLEKeyboard \<Rightarrow> heap \<Rightarrow> real \<Rightarrow> real \<Rightarrow> real \<Rightarrow> real \<Rightarrow> string \<Rightarrow> bool
     \<Rightarrow> error + (KLEKeyboard \<times> heap)" where
  "add_key kb hp x y w h text decal =
     (let kb = kb\<lparr>cur_x := cur_x kb + x\<rparr>;
          kb = kb\<lparr>cur_y := cur_y kb + y\<rparr>;
          pos_x = cur_x kb;
          pos_y = cur_y kb
      in ebind (KLEKey_init pos_x pos_y w h text (Some (global_props kb)) decal (spacing kb) hp)
           (\<lambda>(key, hp').
              let kb = kb\<lparr>keys := keys kb @ [key]\<rparr>;
                  kb = kb\<lparr>cur_x := cur_x kb + w\<rparr>;
                  kb = kb\<lparr>col := col kb + 1\<rparr>
              in Inr (kb, hp')))"

text \<open>\<^verbatim>\<open>d[k] = v\<close> on an insertion-ordered dictionary.\<close>

fun dict_set :: "(string \<times> json) list \<Rightarrow> string \<Rightarrow> json \<Rightarrow> (string \<times> json) list" where
  "dict_set [] k v = [(k, v)]"
| "dict_set ((k', v') # kvs) k v =
     (if k' = k then (k, v) # kvs else (k', v') # dict_set kvs k v)"

fun copy_metadata ::
  "(string \<times> json) list \<Rightarrow> string list \<Rightarrow> (string \<times> json) list \<Rightarrow> error + (string \<times> json) list"
  where
  "copy_metadata r [] md = Inr md"
| "copy_metadata r (key # rest) md =
     ebind (dict_get r key) (\<lambda>v. copy_metadata r rest (dict_set md key v))"

text \<open>The locals of \<^verbatim>\<open>from_json\<close> and the store.\<close>

record pstate =
  ps_keyboard :: KLEKeyboard
  ps_heap :: heap
  ps_props :: KeyProperties
  ps_pos :: nat

text \<open>The body of the inner loop: one item of a row.\<close>

definition from_json_item :: "builtins \<Rightarrow> pstate \<Rightarrow> json \<Rightarrow> error + pstate" where
  "from_json_item py st key =
     (case key of
        JStr key_text \<Rightarrow>
          (let props = ps_props st;
               x = kp_x props; y = kp_y props; w = kp_w props; h = kp_h props;
               d = kp_decal props
           in ebind (add_key (ps_keyboard st) (ps_heap st) x y w h key_text d)
                (\<lambda>(kb, hp). Inr (st\<lparr>ps_keyboard := kb, ps_heap := hp,
                                      ps_props := KeyProperties_init,
                                      ps_pos := ps_pos st + 1\<rparr>)))
      | JObj obj \<Rightarrow>
          ebind (KeyProperties_from_json py obj) (\<lambda>props.
          ebind (update_at py (ps_heap st) (global_props (ps_keyboard st)) obj) (\<lambda>hp.
            let kb = ps_keyboard st;
                kb = (if dict_has obj ''rx'' then kb\<lparr>cur_x := 0\<rparr> else kb);
                kb = (if dict_has obj ''ry'' then kb\<lparr>cur_y := 0\<rparr> else kb)
            in Inr (st\<lparr>ps_keyboard := kb, ps_heap := hp, ps_props := props\<rparr>)))
      | _ \<Rightarrow> Inr st)"

fun from_json_items :: "builtins \<Rightarrow> pstate \<Rightarrow> json list \<Rightarrow> error + pstate" where
  "from_json_items py st [] = Inr st"
| "from_json_items py st (key # rest) =
     ebind (from_json_item py st key) (\<lambda>st. from_json_items py st rest)"

text \<open>
  What \<^verbatim>\<open>for v in value\<close> iterates over: a list's items, a string's characters (each a
  string of length one), a dictionary's keys; anything else is not iterable.
\<close>

definition py_iter :: "json \<Rightarrow> error + json list" where
  "py_iter v =
     (case v of
        JArr xs \<Rightarrow> Inr xs
      | JStr s \<Rightarrow> Inr (map (\<lambda>c. JStr [c]) s)
      | JObj kvs \<Rightarrow> Inr (map (\<lambda>kv. JStr (fst kv)) kvs)
      | _ \<Rightarrow> Inl TypeError)"

text \<open>The body of the outer loop: a dictionary is metadata, anything else is a row.\<close>

definition from_json_row :: "builtins \<Rightarrow> pstate \<Rightarrow> json \<Rightarrow> error + pstate" where
  "from_json_row py st r =
     (case r of
        JObj kvs \<Rightarrow>
          ebind (copy_metadata kvs (map fst kvs) (metadata (ps_keyboard st))) (\<lambda>md.
          Inr (st\<lparr>ps_keyboard := (ps_keyboard st)\<lparr>metadata := md\<rparr>\<rparr>))
      | _ \<Rightarrow>
          ebind (py_iter r) (\<lambda>items.
          ebind (from_json_items py st items) (\<lambda>st.
          Inr (st\<lparr>ps_keyboard := add_row (ps_keyboard st)\<rparr>))))"

fun from_json_rows :: "builtins \<Rightarrow> pstate \<Rightarrow> json list \<Rightarrow> error + pstate" where
  "from_json_rows py st [] = Inr st"
| "from_json_rows py st (r # rest) =
     ebind (from_json_row py st r) (\<lambda>st. from_json_rows py st rest)"

definition from_json_start :: "real \<Rightarrow> heap \<Rightarrow> pstate" where
  "from_json_start sp hp =
     (let (keyboard, hp') = KLEKeyboard_init sp hp
      in \<lparr>ps_keyboard = keyboard, ps_heap = hp', ps_props = KeyProperties_init, ps_pos = 0\<rparr>)"

definition from_json :: "builtins \<Rightarrow> json \<Rightarrow> real \<Rightarrow> heap \<Rightarrow> error + (KLEKeyboard \<times> heap)" where
  "from_json py json_layout sp hp =
     ebind (py_iter json_layout) (\<lambda>rows.
     ebind (from_json_rows py (from_json_start sp hp) rows) (\<lambda>st.
     Inr (ps_keyboard st, ps_heap st)))"



text \<open>
  \<^verbatim>\<open>mirror\<close>: with an axis other than \<^verbatim>\<open>'x'\<close> and \<^verbatim>\<open>'y'\<close> the local \<^verbatim>\<open>mirror\<close> is unbound,
  which the first key of the loop finds out.
\<close>

definition mirror_key :: "Point option \<Rightarrow> KLEKey \<Rightarrow> error + KLEKey" where
  "mirror_key m key =
     (let old_center = get_center key
      in case m of
           None \<Rightarrow> Inl UnboundLocalError
         | Some mirror \<Rightarrow>
             ebind (set_center key (point_x mirror * point_x old_center)
                                   (point_y mirror * point_y old_center)) (\<lambda>key.
             set_angle key (- k_r key)))"

fun mirror_keys :: "Point option \<Rightarrow> KLEKey list \<Rightarrow> error + KLEKey list" where
  "mirror_keys m [] = Inr []"
| "mirror_keys m (key # rest) =
     ebind (mirror_key m key) (\<lambda>key.
     ebind (mirror_keys m rest) (\<lambda>rest. Inr (key # rest)))"

definition mirror :: "KLEKeyboard \<Rightarrow> string \<Rightarrow> error + KLEKeyboard" where
  "mirror kb axis =
     (let m = (if axis = ''x'' then Some (Point (- 1) 1)
               else if axis = ''y'' then Some (Point 1 (- 1))
               else None)
      in ebind (mirror_keys m (keys kb)) (\<lambda>ks. Inr (kb\<lparr>keys := ks\<rparr>)))"


section \<open>Properties stated about the model\<close>





text \<open>
  The persistent properties as the parser runs over a sequence of items: an object item
  updates them, a string item records them (the value a key built there captures). The
  result is the list of recorded values and the properties at the end.
\<close>

fun running_props ::
  "builtins \<Rightarrow> KbProperties \<Rightarrow> json list \<Rightarrow> error + (KbProperties list \<times> KbProperties)" where
  "running_props py g [] = Inr ([], g)"
| "running_props py g (JObj obj # items) = ebind (update py g obj) (\<lambda>g'. running_props py g' items)"
| "running_props py g (JStr s # items) =
     ebind (running_props py g items) (\<lambda>(snaps, g'). Inr (g # snaps, g'))"
| "running_props py g (item # items) = running_props py g items"

text \<open>The items the parser visits: the rows' items in order, a metadata object having none.\<close>

definition row_items :: "json \<Rightarrow> json list" where
  "row_items r =
     (case r of JObj kvs \<Rightarrow> [] | _ \<Rightarrow> (case py_iter r of Inl e \<Rightarrow> [] | Inr items \<Rightarrow> items))"

definition layout_items :: "json \<Rightarrow> json list" where
  "layout_items json_layout =
     (case py_iter json_layout of Inl e \<Rightarrow> [] | Inr rows \<Rightarrow> concat (map row_items rows))"

fun is_str :: "json \<Rightarrow> bool" where
  "is_str (JStr s) = True"
| "is_str j = False"

text \<open>
  The fields \<^verbatim>\<open>update\<close> reads, and what it means that the properties \<open>g\<close> hold the value
  \<open>j\<close> of an object item's field \<open>name\<close>, coerced as \<^verbatim>\<open>update\<close> coerces it.
\<close>

definition style_fields :: "string list" where
  "style_fields = [''c'', ''t'', ''g'', ''a'', ''f'', ''f2'', ''p'', ''r'', ''rx'', ''ry'']"

definition field_is :: "builtins \<Rightarrow> string \<Rightarrow> json \<Rightarrow> KbProperties \<Rightarrow> bool" where
  "field_is py name j g =
     (if name = ''c'' then kb_bg g = str_of py j
      else if name = ''t'' then kb_fg g = str_of py j
      else if name = ''g'' then kb_ghosted g = py_bool j
      else if name = ''a'' then
        py_int py j = Inr (the (kb_text_alignment g)) \<and> kb_text_alignment g \<noteq> None
      else if name = ''f'' then py_int py j = Inr (kb_font_primary g)
      else if name = ''f2'' then py_int py j = Inr (kb_font_secondary g)
      else if name = ''p'' then kb_profile g = Some (str_of py j)
      else if name = ''r'' then py_float py j = Inr (kb_r g)
      else if name = ''rx'' then py_float py j = Inr (kb_rx g)
      else if name = ''ry'' then py_float py j = Inr (kb_ry g)
      else False)"

text \<open>
  A key's snapshot: its own object in the store holds \<open>s\<close>, and the key's angle and
  rotation origin are those of \<open>s\<close>. The invariant of the parse: every key has the snapshot
  listed for it, and the snapshots and the keyboard's running object are different objects.
\<close>

definition captured :: "heap \<Rightarrow> KLEKey \<Rightarrow> KbProperties \<Rightarrow> bool" where
  "captured hp k s =
     (k_properties k < length hp \<and> hp ! k_properties k = s \<and>
      k_r k = kb_r s \<and> k_u_rx k = kb_rx s \<and> k_u_ry k = kb_ry s)"

definition snap_inv :: "KLEKeyboard \<Rightarrow> heap \<Rightarrow> KbProperties list \<Rightarrow> bool" where
  "snap_inv kb hp snaps =
     (global_props kb < length hp \<and> list_all2 (captured hp) (keys kb) snaps \<and>
      distinct (global_props kb # map k_properties (keys kb)))"

section \<open>Position and its inverse\<close>

lemma rot_inv: "rotate_complex a * rotate_complex (- a) = 1"
  by (simp add: rotate_complex_def flip: exp_add)

lemma rot_inv': "rotate_complex (- a) * rotate_complex a = 1"
  by (simp add: rotate_complex_def flip: exp_add)

lemma unscale:
  "s \<noteq> 0 \<Longrightarrow> Complex (x / s - a) (y / s - b) = Complex x y / complex_of_real s - Complex a b"
  by (simp add: complex_eq_iff)

lemma get_pos_complex:
  "Complex (point_x (get_pos k)) (point_y (get_pos k)) =
     (Complex (k_u_rx k) (k_u_ry k) + Complex (k_u_x k) (k_u_y k) * rotate_complex (r_rad k))
       * complex_of_real (k_spacing k)"
  by (simp only: get_pos_def Let_def Point.sel complex_surj)

lemma set_pos_val:
  assumes "k_spacing k \<noteq> 0"
  shows "set_pos k x y =
     Inr (k\<lparr>k_u_x := Re ((Complex x y / complex_of_real (k_spacing k)
                              - Complex (k_u_rx k) (k_u_ry k)) * rotate_complex (- r_rad k)),
             k_u_y := Im ((Complex x y / complex_of_real (k_spacing k)
                              - Complex (k_u_rx k) (k_u_ry k)) * rotate_complex (- r_rad k))\<rparr>)"
  using assms by (simp only: set_pos_def Let_def Point.sel if_False unscale[OF assms])

lemma set_pos_get_pos:
  assumes "k_spacing k \<noteq> 0"
  shows "set_pos k (point_x (get_pos k)) (point_y (get_pos k)) = Inr k"
proof -
  define c where "c = rotate_complex (r_rad k)"
  define c' where "c' = rotate_complex (- r_rad k)"
  define u where "u = Complex (k_u_x k) (k_u_y k)"
  define org where "org = Complex (k_u_rx k) (k_u_ry k)"
  define s where "s = complex_of_real (k_spacing k)"
  have s: "s \<noteq> 0" using assms by (simp add: s_def)
  have cc: "c * c' = 1" by (simp add: c_def c'_def rot_inv)
  have "(org + u * c) * s / s = org + u * c"
    using s by simp
  then have "((org + u * c) * s / s - org) * c' = u * (c * c')"
    by (simp add: mult.assoc)
  then have "((org + u * c) * s / s - org) * c' = u" by (simp add: cc)
  then have "set_pos k (point_x (get_pos k)) (point_y (get_pos k)) =
     Inr (k\<lparr>k_u_x := Re u, k_u_y := Im u\<rparr>)"
    unfolding set_pos_val[OF assms] get_pos_complex
    by (simp only: c_def c'_def u_def org_def s_def)
  then show ?thesis by (simp add: u_def)
qed

lemma get_pos_set_pos:
  assumes "k_spacing k \<noteq> 0" and "set_pos k px py = Inr k'"
  shows "get_pos k' = Point px py"
proof -
  define c where "c = rotate_complex (r_rad k)"
  define c' where "c' = rotate_complex (- r_rad k)"
  define org where "org = Complex (k_u_rx k) (k_u_ry k)"
  define s where "s = complex_of_real (k_spacing k)"
  define u where "u = (Complex px py / s - org) * c'"
  have s: "s \<noteq> 0" using assms by (simp add: s_def)
  have cc: "c' * c = 1" by (simp add: c_def c'_def rot_inv')
  have k': "k' = k\<lparr>k_u_x := Re u, k_u_y := Im u\<rparr>"
    using assms(2) unfolding set_pos_val[OF assms(1)] u_def c'_def org_def s_def by simp
  have "(org + u * c) * s = (org + (Complex px py / s - org) * (c' * c)) * s"
    by (simp add: u_def algebra_simps)
  also have "\<dots> = Complex px py" using s by (simp add: cc)
  finally have "(org + u * c) * s = Complex px py" .
  moreover have "Complex (point_x (get_pos k')) (point_y (get_pos k')) = (org + u * c) * s"
    unfolding get_pos_complex by (simp add: k' r_rad_def org_def c_def s_def)
  ultimately have "Complex (point_x (get_pos k')) (point_y (get_pos k')) = Complex px py"
    by simp
  then show ?thesis by (cases "get_pos k'") simp
qed


lemma set_pos_frame:
  assumes "set_pos k x y = Inr k'"
  shows "k_spacing k' = k_spacing k \<and> k_r k' = k_r k \<and> k_u_w k' = k_u_w k \<and> k_u_h k' = k_u_h k
    \<and> k_u_rx k' = k_u_rx k \<and> k_u_ry k' = k_u_ry k \<and> k_spacing k \<noteq> 0"
  using assms by (auto simp: set_pos_def Let_def split: if_splits)

lemma set_pos_total: "k_spacing k \<noteq> 0 \<Longrightarrow> \<exists>k'. set_pos k x y = Inr k'"
  by (simp add: set_pos_def Let_def)


text \<open>
  C1. For a key with any rotation angle, any rotation origin and a spacing \<open>s > 0\<close>:
  \<^verbatim>\<open>set_pos(p)\<close> followed by \<^verbatim>\<open>get_pos()\<close> gives back \<open>p\<close> for every target point \<open>p\<close>, and
  \<^verbatim>\<open>set_pos(get_pos())\<close> leaves the key, so also its stored unit \<open>x, y\<close>, unchanged. The
  equations are exact in real arithmetic, which the floating-point code follows up to
  rounding.
\<close>

theorem set_pos_get_pos_inverse:
  assumes "0 < k_spacing k"
  shows "(\<exists>k'. set_pos k px py = Inr k' \<and> get_pos k' = Point px py) \<and>
         set_pos k (point_x (get_pos k)) (point_y (get_pos k)) = Inr k"
proof -
  have s: "k_spacing k \<noteq> 0" using assms by simp
  obtain k' where k': "set_pos k px py = Inr k'"
    using set_pos_total[OF s] by blast
  have "get_pos k' = Point px py"
    by (rule get_pos_set_pos[OF s k'])
  with k' set_pos_get_pos[OF s] show ?thesis by blast
qed

theorem set_pos_get_pos_inverse_witness:
  "(\<exists>k'. set_pos \<lparr>k_u_x = 1, k_u_y = 2, k_u_w = 1, k_u_h = 1, k_spacing = 19, k_decal = False,
                   k_properties = 0, k_r = 30, k_u_rx = 3, k_u_ry = 4,
                   k_legends = Map.empty\<rparr> 5 7 = Inr k' \<and> get_pos k' = Point 5 7)"
  using set_pos_get_pos_inverse
    [of "\<lparr>k_u_x = 1, k_u_y = 2, k_u_w = 1, k_u_h = 1, k_spacing = 19, k_decal = False,
          k_properties = 0, k_r = 30, k_u_rx = 3, k_u_ry = 4, k_legends = Map.empty\<rparr>" 5 7]
  by simp

section \<open>Center and angle\<close>

lemma get_center_complex:
  "Complex (point_x (get_center k)) (point_y (get_center k)) =
     Complex (point_x (get_pos k)) (point_y (get_pos k))
       + (1 / 2) * Complex (key_w k) (key_h k) * rotate_complex (r_rad k)"
  by (simp only: get_center_def Let_def Point.sel complex_surj)

lemma Point_eqI: "Complex (point_x p) (point_y p) = Complex a b \<Longrightarrow> p = Point a b"
  by (cases p) simp

lemma get_center_set_center:
  assumes "set_center k x y = Inr k'"
  shows "get_center k' = Point x y"
proof -
  define h where "h = (1 / 2) * Complex (key_w k) (key_h k) * rotate_complex (r_rad k)"
  have sp: "set_pos k (Re (Complex x y - h)) (Im (Complex x y - h)) = Inr k'"
    using assms by (simp only: set_center_def Let_def h_def)
  note fr = set_pos_frame[OF sp]
  have h': "(1 / 2) * Complex (key_w k') (key_h k') * rotate_complex (r_rad k') = h"
    using fr by (simp add: h_def key_w_def key_h_def r_rad_def)
  have "get_pos k' = Point (Re (Complex x y - h)) (Im (Complex x y - h))"
    using get_pos_set_pos[OF _ sp] fr by blast
  then have "Complex (point_x (get_pos k')) (point_y (get_pos k')) = Complex x y - h"
    by (simp only: Point.sel complex_surj)
  then have "Complex (point_x (get_center k')) (point_y (get_center k')) = Complex x y"
    unfolding get_center_complex h' by simp
  then show ?thesis by (rule Point_eqI)
qed

lemma set_center_get_center:
  assumes "k_spacing k \<noteq> 0"
  shows "set_center k (point_x (get_center k)) (point_y (get_center k)) = Inr k"
proof -
  define h where "h = (1 / 2) * Complex (key_w k) (key_h k) * rotate_complex (r_rad k)"
  define p where "p = Complex (point_x (get_pos k)) (point_y (get_pos k))"
  have "Complex (point_x (get_center k)) (point_y (get_center k)) - h = p"
    unfolding get_center_complex h_def p_def by simp
  then have "set_center k (point_x (get_center k)) (point_y (get_center k)) =
     set_pos k (Re p) (Im p)"
    by (simp only: set_center_def Let_def h_def)
  also have "\<dots> = set_pos k (point_x (get_pos k)) (point_y (get_pos k))"
    by (simp add: p_def)
  finally show ?thesis by (simp only: set_pos_get_pos[OF assms])
qed

lemma set_center_frame:
  assumes "set_center k x y = Inr k'"
  shows "k_spacing k' = k_spacing k \<and> k_r k' = k_r k \<and> k_spacing k \<noteq> 0"
  using assms set_pos_frame unfolding set_center_def Let_def by blast

lemma set_center_total: "k_spacing k \<noteq> 0 \<Longrightarrow> \<exists>k'. set_center k x y = Inr k'"
  unfolding set_center_def Let_def by (rule set_pos_total)

lemma set_angle_center:
  assumes "k_spacing k \<noteq> 0"
  shows "\<exists>k'. set_angle k a = Inr k' \<and> get_center k' = get_center k \<and> k_r k' = a
           \<and> k_spacing k' = k_spacing k"
proof -
  obtain k' where k': "set_center (k\<lparr>k_r := a\<rparr>) (point_x (get_center k)) (point_y (get_center k)) = Inr k'"
    using set_center_total[of "k\<lparr>k_r := a\<rparr>"] assms by auto
  have "get_center k' = Point (point_x (get_center k)) (point_y (get_center k))"
    by (rule get_center_set_center[OF k'])
  moreover have "set_angle k a = Inr k'"
    using k' by (simp add: set_angle_def Let_def)
  ultimately show ?thesis using set_center_frame[OF k'] by simp
qed

text \<open>
  C5. For a key with positive spacing, \<^verbatim>\<open>set_center(get_center())\<close> leaves the key (its
  stored unit-space geometry) unchanged, and for every new angle \<open>a\<close>, \<^verbatim>\<open>set_angle(a)\<close>
  returns a key with angle \<open>a\<close> whose \<^verbatim>\<open>get_center()\<close> is the center it had before the call.
\<close>

theorem set_center_noop_set_angle_keeps_center:
  assumes "0 < k_spacing k"
  shows "set_center k (point_x (get_center k)) (point_y (get_center k)) = Inr k \<and>
         (\<exists>k'. set_angle k a = Inr k' \<and> get_center k' = get_center k \<and> k_r k' = a)"
proof -
  have s: "k_spacing k \<noteq> 0" using assms by simp
  show ?thesis
    using set_center_get_center[OF s] set_angle_center[OF s, of a] by blast
qed

theorem set_center_noop_set_angle_keeps_center_witness:
  "\<exists>k'. set_angle \<lparr>k_u_x = 1, k_u_y = 2, k_u_w = 2, k_u_h = 1, k_spacing = 19, k_decal = False,
                    k_properties = 0, k_r = 30, k_u_rx = 3, k_u_ry = 4,
                    k_legends = Map.empty\<rparr> 45 = Inr k' \<and>
        get_center k' = get_center \<lparr>k_u_x = 1, k_u_y = 2, k_u_w = 2, k_u_h = 1, k_spacing = 19,
                    k_decal = False, k_properties = 0, k_r = 30, k_u_rx = 3, k_u_ry = 4,
                    k_legends = Map.empty\<rparr> \<and> k_r k' = 45"
  using set_center_noop_set_angle_keeps_center
    [of "\<lparr>k_u_x = 1, k_u_y = 2, k_u_w = 2, k_u_h = 1, k_spacing = 19, k_decal = False,
          k_properties = 0, k_r = 30, k_u_rx = 3, k_u_ry = 4, k_legends = Map.empty\<rparr>" 45]
  by simp

section \<open>Mirroring\<close>

lemma mirror_key_spec:
  assumes "k_spacing k \<noteq> 0"
  shows "\<exists>k'. mirror_key (Some (Point mx my)) k = Inr k' \<and>
           get_center k' = Point (mx * point_x (get_center k)) (my * point_y (get_center k)) \<and>
           k_r k' = - k_r k \<and> k_spacing k' = k_spacing k"
proof -
  obtain k1 where k1: "set_center k (mx * point_x (get_center k)) (my * point_y (get_center k)) = Inr k1"
    using set_center_total[OF assms] by blast
  have c1: "get_center k1 = Point (mx * point_x (get_center k)) (my * point_y (get_center k))"
    by (rule get_center_set_center[OF k1])
  have f1: "k_spacing k1 = k_spacing k" "k_r k1 = k_r k"
    using set_center_frame[OF k1] by simp_all
  obtain k2 where k2: "set_angle k1 (- k_r k1) = Inr k2" "get_center k2 = get_center k1"
    "k_r k2 = - k_r k1" "k_spacing k2 = k_spacing k1"
    using set_angle_center[of k1 "- k_r k1"] assms f1 by auto
  have "mirror_key (Some (Point mx my)) k = Inr k2"
    using k1 k2(1) by (simp add: mirror_key_def Let_def)
  then show ?thesis using k2 c1 f1 by simp
qed

lemma mirror_keys_spec:
  assumes "\<forall>k\<in>set ks. k_spacing k \<noteq> 0"
  shows "\<exists>ks'. mirror_keys (Some (Point mx my)) ks = Inr ks' \<and>
           map get_center ks' = map (\<lambda>k. Point (mx * point_x (get_center k)) (my * point_y (get_center k))) ks \<and>
           map k_r ks' = map (\<lambda>k. - k_r k) ks \<and> map k_spacing ks' = map k_spacing ks"
  using assms
proof (induction ks)
  case Nil
  then show ?case by simp
next
  case (Cons k ks)
  obtain k' where k': "mirror_key (Some (Point mx my)) k = Inr k'"
     "get_center k' = Point (mx * point_x (get_center k)) (my * point_y (get_center k))"
     "k_r k' = - k_r k" "k_spacing k' = k_spacing k"
    using mirror_key_spec[of k mx my] Cons.prems by auto
  obtain ks' where ks': "mirror_keys (Some (Point mx my)) ks = Inr ks'"
    "map get_center ks' = map (\<lambda>k. Point (mx * point_x (get_center k)) (my * point_y (get_center k))) ks"
    "map k_r ks' = map (\<lambda>k. - k_r k) ks" "map k_spacing ks' = map k_spacing ks"
    using Cons.IH Cons.prems by auto
  show ?case using k' ks' by simp
qed

lemma mirror_twice_keys:
  assumes "\<forall>k\<in>set ks. k_spacing k \<noteq> 0" and "mx * mx = 1" and "my * my = 1"
  shows "\<exists>ks1 ks2. mirror_keys (Some (Point mx my)) ks = Inr ks1 \<and>
           mirror_keys (Some (Point mx my)) ks1 = Inr ks2 \<and>
           map get_center ks2 = map get_center ks \<and> map k_r ks2 = map k_r ks"
proof -
  obtain ks1 where ks1: "mirror_keys (Some (Point mx my)) ks = Inr ks1"
    "map get_center ks1 = map (\<lambda>k. Point (mx * point_x (get_center k)) (my * point_y (get_center k))) ks"
    "map k_r ks1 = map (\<lambda>k. - k_r k) ks" "map k_spacing ks1 = map k_spacing ks"
    using mirror_keys_spec[OF assms(1)] by blast
  have "set (map k_spacing ks1) = set (map k_spacing ks)" using ks1(4) by simp
  then have sp1: "\<forall>k\<in>set ks1. k_spacing k \<noteq> 0" using assms(1) by (metis (no_types, lifting) image_iff list.set_map)
  obtain ks2 where ks2: "mirror_keys (Some (Point mx my)) ks1 = Inr ks2"
    "map get_center ks2 = map (\<lambda>k. Point (mx * point_x (get_center k)) (my * point_y (get_center k))) ks1"
    "map k_r ks2 = map (\<lambda>k. - k_r k) ks1"
    using mirror_keys_spec[OF sp1] by blast
  have "map get_center ks2 = map (\<lambda>p. Point (mx * point_x p) (my * point_y p)) (map get_center ks1)"
    using ks2(2) by (simp add: comp_def)
  also have "\<dots> = map (\<lambda>k. Point (mx * (mx * point_x (get_center k))) (my * (my * point_y (get_center k)))) ks"
    unfolding ks1(2) by (simp add: comp_def)
  also have "\<dots> = map get_center ks"
    using assms(2,3) by (simp flip: mult.assoc)
  finally have c: "map get_center ks2 = map get_center ks" .
  have "map k_r ks2 = map uminus (map k_r ks1)" using ks2(3) by (simp add: comp_def)
  also have "\<dots> = map k_r ks" unfolding ks1(3) by (simp add: comp_def)
  finally show ?thesis using ks1(1) ks2(1) c by blast
qed

text \<open>
  C4. For a keyboard whose keys have positive spacing and for each axis in \<open>{'x', 'y'}\<close>,
  \<^verbatim>\<open>mirror(axis)\<close> applied twice returns, and every key's center and rotation angle are
  again what they were before the first call.
\<close>

theorem mirror_involution:
  assumes "axis = ''x'' \<or> axis = ''y''" and "\<forall>k\<in>set (keys kb). 0 < k_spacing k"
  shows "\<exists>kb1 kb2. mirror kb axis = Inr kb1 \<and> mirror kb1 axis = Inr kb2 \<and>
           map get_center (keys kb2) = map get_center (keys kb) \<and>
           map k_r (keys kb2) = map k_r (keys kb)"
proof -
  obtain mx my :: real where m: "(if axis = ''x'' then Some (Point (- 1) 1)
               else if axis = ''y'' then Some (Point 1 (- 1))
               else None) = Some (Point mx my)" "mx * mx = 1" "my * my = 1"
    using assms(1) by auto
  have sp: "\<forall>k\<in>set (keys kb). k_spacing k \<noteq> 0" using assms(2) by auto
  obtain ks1 ks2 where ks: "mirror_keys (Some (Point mx my)) (keys kb) = Inr ks1"
     "mirror_keys (Some (Point mx my)) ks1 = Inr ks2"
     "map get_center ks2 = map get_center (keys kb)" "map k_r ks2 = map k_r (keys kb)"
    using mirror_twice_keys[OF sp m(2,3)] by blast
  have 1: "mirror kb axis = Inr (kb\<lparr>keys := ks1\<rparr>)"
    unfolding mirror_def Let_def m(1) using ks(1) by simp
  have 2: "mirror (kb\<lparr>keys := ks1\<rparr>) axis = Inr (kb\<lparr>keys := ks2\<rparr>)"
    unfolding mirror_def Let_def m(1) using ks(2) by simp
  show ?thesis using 1 2 ks(3,4) by simp
qed

theorem mirror_involution_witness:
  "\<exists>kb1 kb2.
     mirror \<lparr>keys = [\<lparr>k_u_x = 1, k_u_y = 2, k_u_w = 2, k_u_h = 1, k_spacing = 19,
                      k_decal = False, k_properties = 0, k_r = 30, k_u_rx = 3, k_u_ry = 4,
                      k_legends = Map.empty\<rparr>],
             col = 1, row = 0, global_props = 0, cur_x = 0, cur_y = 1, spacing = 19,
             metadata = [], priv_col = Some 0\<rparr> ''x'' = Inr kb1 \<and>
     mirror kb1 ''x'' = Inr kb2 \<and>
     map get_center (keys kb2) =
       [get_center \<lparr>k_u_x = 1, k_u_y = 2, k_u_w = 2, k_u_h = 1, k_spacing = 19,
                    k_decal = False, k_properties = 0, k_r = 30, k_u_rx = 3, k_u_ry = 4,
                    k_legends = Map.empty\<rparr>] \<and>
     map k_r (keys kb2) = [30]"
  using mirror_involution
    [of "''x''" "\<lparr>keys = [\<lparr>k_u_x = 1, k_u_y = 2, k_u_w = 2, k_u_h = 1, k_spacing = 19,
                      k_decal = False, k_properties = 0, k_r = 30, k_u_rx = 3, k_u_ry = 4,
                      k_legends = Map.empty\<rparr>],
             col = 1, row = 0, global_props = 0, cur_x = 0, cur_y = 1, spacing = 19,
             metadata = [], priv_col = Some 0\<rparr>"]
  by simp

section \<open>Unit position\<close>

text \<open>
  C10. In \<^verbatim>\<open>set_u_pos\<close> a zero \<open>r\<close>, \<open>u_rx\<close> or \<open>u_ry\<close> does what an absent argument does:
  the stored angle or origin coordinate keeps its previous value; a non-zero value
  overwrites it.
\<close>

theorem set_u_pos_zero:
  "set_u_pos k ux uy (Some 0) u_rx u_ry = set_u_pos k ux uy None u_rx u_ry \<and>
   set_u_pos k ux uy r (Some 0) u_ry = set_u_pos k ux uy r None u_ry \<and>
   set_u_pos k ux uy r u_rx (Some 0) = set_u_pos k ux uy r u_rx None \<and>
   k_r (set_u_pos k ux uy None u_rx u_ry) = k_r k \<and>
   k_u_rx (set_u_pos k ux uy r None u_ry) = k_u_rx k \<and>
   k_u_ry (set_u_pos k ux uy r u_rx None) = k_u_ry k \<and>
   k_r (set_u_pos k ux uy (Some v) u_rx u_ry) = (if v = 0 then k_r k else v) \<and>
   k_u_rx (set_u_pos k ux uy r (Some v) u_ry) = (if v = 0 then k_u_rx k else v) \<and>
   k_u_ry (set_u_pos k ux uy r u_rx (Some v)) = (if v = 0 then k_u_ry k else v)"
  by (simp add: set_u_pos_def truthy_def Let_def)



section \<open>Parsing a small layout\<close>

lemma ebind_Inr_iff: "ebind m f = Inr y \<longleftrightarrow> (\<exists>x. m = Inr x \<and> f x = Inr y)"
  by (cases m) auto

lemma KeyProperties_from_json_w2:
  "KeyProperties_from_json py [(''w'', JNum 2)] = Inr (KeyProperties_init\<lparr>kp_w := 2\<rparr>)"
  by (simp add: KeyProperties_from_json_def on_field_def dict_has_def dict_get_def)

lemma update_w2: "update py g [(''w'', JNum 2)] = Inr g"
  by (simp add: update_def on_field_def dict_has_def dict_get_def)

lemma legends_len12: "length LEGEND_MAP = 12"
  by (simp add: LEGEND_MAP_def)

lemma upt12: "[0..<12] = [0,1,2,3,4,5,6,7,8,9,10,11]"
  by (simp add: upt_rec)

lemma KLEKey_init_one:
  "c \<noteq> nl \<Longrightarrow> g < length hp \<Longrightarrow> KLEKey_init ux uy uw uh [c] (Some g) d sp hp =
     Inr (\<lparr>k_u_x = ux, k_u_y = uy, k_u_w = uw, k_u_h = uh, k_spacing = sp, k_decal = d,
           k_properties = length hp, k_r = kb_r (hp ! g), k_u_rx = kb_rx (hp ! g),
           k_u_ry = kb_ry (hp ! g),
           k_legends = [0 \<mapsto> [c], 1 \<mapsto> [], 2 \<mapsto> [], 3 \<mapsto> [], 4 \<mapsto> [], 5 \<mapsto> [], 6 \<mapsto> [],
                        7 \<mapsto> [], 8 \<mapsto> [], 9 \<mapsto> [], 10 \<mapsto> [], 11 \<mapsto> []]\<rparr>, hp @ [hp ! g])"
  by (simp add: KLEKey_init_def alloc_def legends_len12 upt12 Let_def)


lemma C_is_not_nl: "CHR ''A'' \<noteq> nl" "CHR ''B'' \<noteq> nl" "CHR ''C'' \<noteq> nl"
  by (simp_all add: nl_def)

lemma start_state:
  "from_json_start sp hp =
     \<lparr>ps_keyboard = \<lparr>keys = [], col = 0, row = - 1, global_props = length hp, cur_x = 0,
                      cur_y = 0, spacing = sp, metadata = [], priv_col = None\<rparr>,
      ps_heap = hp @ [KbProperties_init], ps_props = KeyProperties_init, ps_pos = 0\<rparr>"
  by (simp add: from_json_start_def KLEKeyboard_init_def alloc_def)

text \<open>
  C2. Parsing \<^verbatim>\<open>[["A","B"], [{"w":2}, "C"]]\<close> succeeds with exactly three keys, in creation
  order with legends A, B, C; A and B have unit width 1 and C has unit width 2; the first
  row ends with the cursor back at column 0 (and one row down), so A is at unit position
  \<open>(0, 0)\<close>, B at \<open>(1, 0)\<close> and C at \<open>(0, 1)\<close>. This holds for any spacing and any store.
\<close>

theorem from_json_abc:
  "\<exists>kb hp' st1.
     from_json py (JArr [JArr [JStr ''A'', JStr ''B''], JArr [JObj [(''w'', JNum 2)], JStr ''C'']]) sp hp
       = Inr (kb, hp') \<and>
     length (keys kb) = 3 \<and>
     map get_legend_str (keys kb) = [Inr ''A'', Inr ''B'', Inr ''C''] \<and>
     map (\<lambda>k. get_legend k 0) (keys kb) = [Inr ''A'', Inr ''B'', Inr ''C''] \<and>
     map k_u_w (keys kb) = [1, 1, 2] \<and>
     map (\<lambda>k. (k_u_x k, k_u_y k)) (keys kb) = [(0, 0), (1, 0), (0, 1)] \<and>
     from_json_row py (from_json_start sp hp) (JArr [JStr ''A'', JStr ''B'']) = Inr st1 \<and>
     cur_x (ps_keyboard st1) = 0 \<and> cur_y (ps_keyboard st1) = 1"
  by (simp add: from_json_def py_iter_def start_state from_json_row_def from_json_item_def
        add_key_def KLEKey_init_one C_is_not_nl add_row_def Let_def KeyProperties_init_def
        KeyProperties_from_json_w2[unfolded KeyProperties_init_def] update_at_def update_w2
        dict_has_def get_legend_str_def legends_len12 upt12 strip_nl_def nl_def get_legend_def LEGEND_MAP_def)

section \<open>Legends\<close>

lemma fold_upd_lookup:
  "fold (\<lambda>key m. m(key \<mapsto> f key)) ks m0 i = (if i \<in> set ks then Some (f i) else m0 i)"
  by (induction ks arbitrary: m0) auto

lemma KLEKey_init_overflow:
  assumes "12 < length (split_nl text)"
  shows "KLEKey_init ux uy uw uh text properties decal sp hp =
           Inl (Exception (KLEParseError (length (split_nl text)) 12))"
  using assms by (simp add: KLEKey_init_def legends_len12 Let_def split: prod.splits)

lemma KLEKey_init_accepts:
  assumes "length (split_nl text) \<le> 12"
  shows "\<exists>k hp'. KLEKey_init ux uy uw uh text properties decal sp hp = Inr (k, hp') \<and>
           (\<forall>i<12. get_legend k i =
              Inr (if i < length (split_nl text) then split_nl text ! i else []))"
proof -
  have "map fst LEGEND_MAP = [0..<12]"
    by (simp add: LEGEND_MAP_def upt12)
  then have "set (map fst LEGEND_MAP) = set [0..<12]"
    by (rule arg_cong)
  then have dom: "fst ` set LEGEND_MAP = {..<12}"
    by (simp add: lessThan_atLeast0)
  show ?thesis
    using assms
    by (auto simp: KLEKey_init_def legends_len12 Let_def get_legend_def dom fold_upd_lookup
             split: prod.splits)
qed

text \<open>
  C6. A text of thirteen segments (twelve newlines) is refused, but what is raised is
  \<^verbatim>\<open>Exception(KLEParseError(...))\<close>: an instance of the base class \<^verbatim>\<open>Exception\<close> whose argument
  is the \<^verbatim>\<open>KLEParseError\<close>, not a \<^verbatim>\<open>KLEParseError\<close>. The general facts are
  \<open>KLEKey_init_overflow\<close> (more than twelve segments: this error) and
  \<open>KLEKey_init_accepts\<close> (at most twelve: accepted, every slot \<open>0..11\<close> readable by
  \<^verbatim>\<open>get_legend\<close>, holding its segment or the empty string).
\<close>

theorem legend_overflow_raises_plain_exception:
  "KLEKey_init 0 0 1 1 (replicate 12 nl) None False 19 [] = Inl (Exception (KLEParseError 13 12))"
  by (simp add: KLEKey_init_def legends_len12 Let_def alloc_def numeral_eq_Suc)


section \<open>Cursor resets\<close>

text \<open>
  C7. When the parser has processed an object item, the column cursor \<^verbatim>\<open>cur_x\<close> is 0 if the
  object has the field \<^verbatim>\<open>rx\<close> and is untouched otherwise, and the vertical cursor \<^verbatim>\<open>cur_y\<close> is
  0 if the object has the field \<^verbatim>\<open>ry\<close> and is untouched otherwise; so \<^verbatim>\<open>ry\<close> alone leaves the
  column cursor as it was.
\<close>

theorem rx_ry_reset_cursor:
  assumes "from_json_item py st (JObj obj) = Inr st'"
  shows "cur_x (ps_keyboard st') = (if dict_has obj ''rx'' then 0 else cur_x (ps_keyboard st)) \<and>
         cur_y (ps_keyboard st') = (if dict_has obj ''ry'' then 0 else cur_y (ps_keyboard st))"
proof -
  obtain props hp where
    "st' = st\<lparr>ps_keyboard :=
              (let kb = ps_keyboard st;
                   kb = (if dict_has obj ''rx'' then kb\<lparr>cur_x := 0\<rparr> else kb);
                   kb = (if dict_has obj ''ry'' then kb\<lparr>cur_y := 0\<rparr> else kb)
               in kb),
             ps_heap := hp, ps_props := props\<rparr>"
    using assms by (auto simp: from_json_item_def ebind_Inr_iff Let_def)
  then show ?thesis by (simp add: Let_def)
qed

theorem rx_ry_reset_cursor_witness:
  "\<exists>st'. from_json_item \<lparr>float_of_str = Map.empty, int_of_str = Map.empty, str_of = (\<lambda>j. [])\<rparr>
            \<lparr>ps_keyboard = \<lparr>keys = [], col = 2, row = 0, global_props = 0, cur_x = 5, cur_y = 3,
                             spacing = 19, metadata = [], priv_col = None\<rparr>,
             ps_heap = [KbProperties_init], ps_props = KeyProperties_init, ps_pos = 2\<rparr>
            (JObj [(''ry'', JNum 2)]) = Inr st' \<and>
         cur_x (ps_keyboard st') = 5 \<and> cur_y (ps_keyboard st') = 0"
proof -
  obtain st' where s: "from_json_item \<lparr>float_of_str = Map.empty, int_of_str = Map.empty, str_of = (\<lambda>j. [])\<rparr>
            \<lparr>ps_keyboard = \<lparr>keys = [], col = 2, row = 0, global_props = 0, cur_x = 5, cur_y = 3,
                             spacing = 19, metadata = [], priv_col = None\<rparr>,
             ps_heap = [KbProperties_init], ps_props = KeyProperties_init, ps_pos = 2\<rparr>
            (JObj [(''ry'', JNum 2)]) = Inr st'"
    by (simp add: from_json_item_def KeyProperties_from_json_def update_at_def update_def
          on_field_def dict_has_def dict_get_def)
  show ?thesis
    using rx_ry_reset_cursor[OF s] s by (simp add: dict_has_def)
qed

section \<open>Serialization\<close>

















section \<open>Snapshots of the persistent properties\<close>

lemma running_props_append:
  "running_props py g xs = Inr (a, g1) \<Longrightarrow> running_props py g1 ys = Inr (b, g2) \<Longrightarrow>
     running_props py g (xs @ ys) = Inr (a @ b, g2)"
proof (induction py g xs arbitrary: a rule: running_props.induct)
  case (1 py g)
  then show ?case by simp
next
  case (2 py g obj items)
  then show ?case by (auto simp: ebind_Inr_iff)
next
  case (3 py g s items)
  then show ?case by (auto simp: ebind_Inr_iff)
qed simp_all

lemma add_key_effect:
  assumes "add_key kb hp x y w h t d = Inr (kb', hp')"
  shows "\<exists>key. keys kb' = keys kb @ [key] \<and> global_props kb' = global_props kb \<and>
           hp' = hp @ [hp ! global_props kb] \<and> k_properties key = length hp \<and>
           k_r key = kb_r (hp ! global_props kb) \<and> k_u_rx key = kb_rx (hp ! global_props kb) \<and>
           k_u_ry key = kb_ry (hp ! global_props kb)"
  using assms
  by (auto simp: add_key_def KLEKey_init_def alloc_def Let_def ebind_Inr_iff split: if_splits)

lemma captured_grow:
  "captured hp k s \<Longrightarrow> captured (hp @ [v]) k s"
  by (simp add: captured_def nth_append)

lemma captured_update:
  "captured hp k s \<Longrightarrow> k_properties k \<noteq> a \<Longrightarrow> captured (hp[a := v]) k s"
  by (simp add: captured_def)

lemma snap_inv_add_key:
  assumes "snap_inv kb hp snaps" and "add_key kb hp x y w h t d = Inr (kb', hp')"
  shows "snap_inv kb' hp' (snaps @ [hp ! global_props kb]) \<and> global_props kb' = global_props kb
         \<and> hp' ! global_props kb = hp ! global_props kb \<and> (\<exists>new. keys kb' = keys kb @ new)"
proof -
  obtain key where k: "keys kb' = keys kb @ [key]" "global_props kb' = global_props kb"
     "hp' = hp @ [hp ! global_props kb]" "k_properties key = length hp"
     "k_r key = kb_r (hp ! global_props kb)" "k_u_rx key = kb_rx (hp ! global_props kb)"
     "k_u_ry key = kb_ry (hp ! global_props kb)"
    using add_key_effect[OF assms(2)] by blast
  have g: "global_props kb < length hp" and old: "list_all2 (captured hp) (keys kb) snaps"
    and d: "distinct (global_props kb # map k_properties (keys kb))"
    using assms(1) by (simp_all add: snap_inv_def)
  have old': "list_all2 (captured hp') (keys kb) snaps"
    using old unfolding k(3) by (rule list_all2_mono) (rule captured_grow)
  have new: "captured hp' key (hp ! global_props kb)"
    using k by (simp add: captured_def)
  have lt: "\<forall>k\<in>set (keys kb). k_properties k < length hp"
    using old by (auto simp: list_all2_conv_all_nth captured_def in_set_conv_nth)
  have d': "distinct (global_props kb' # map k_properties (keys kb'))"
    using d g lt k(1,2,4) by auto
  have "list_all2 (captured hp') (keys kb') (snaps @ [hp ! global_props kb])"
    unfolding k(1) using old' new by (simp add: list_all2_appendI)
  then show ?thesis
    using g d' k(1,2,3) by (simp add: snap_inv_def nth_append)
qed

lemma snap_inv_update:
  assumes "snap_inv kb hp snaps"
  shows "snap_inv kb (hp[global_props kb := v]) snaps"
proof -
  have old: "list_all2 (captured hp) (keys kb) snaps"
    and d: "distinct (global_props kb # map k_properties (keys kb))"
    using assms by (simp_all add: snap_inv_def)
  have ne: "\<forall>k\<in>set (keys kb). k_properties k \<noteq> global_props kb"
    using d by (force simp: image_iff)
  have "list_all2 (captured (hp[global_props kb := v])) (keys kb) snaps"
    using old ne by (auto simp: list_all2_conv_all_nth intro!: captured_update)
  then show ?thesis using assms by (simp add: snap_inv_def)
qed

lemma from_json_item_snap:
  assumes "from_json_item py st item = Inr st'"
    and "snap_inv (ps_keyboard st) (ps_heap st) snaps"
  shows "\<exists>ss. running_props py (ps_heap st ! global_props (ps_keyboard st)) [item]
               = Inr (ss, ps_heap st' ! global_props (ps_keyboard st)) \<and>
           snap_inv (ps_keyboard st') (ps_heap st') (snaps @ ss) \<and>
           global_props (ps_keyboard st') = global_props (ps_keyboard st) \<and>
           (\<exists>new. keys (ps_keyboard st') = keys (ps_keyboard st) @ new)"
proof (cases item)
  case (JStr t)
  obtain kb' hp' where ak: "add_key (ps_keyboard st) (ps_heap st) (kp_x (ps_props st))
      (kp_y (ps_props st)) (kp_w (ps_props st)) (kp_h (ps_props st)) t (kp_decal (ps_props st))
      = Inr (kb', hp')" and st': "ps_keyboard st' = kb'" "ps_heap st' = hp'"
    using assms(1) JStr by (auto simp: from_json_item_def Let_def ebind_Inr_iff)
  show ?thesis
    using snap_inv_add_key[OF assms(2) ak] JStr st' by simp
next
  case (JObj obj)
  obtain g' where u: "update py (ps_heap st ! global_props (ps_keyboard st)) obj = Inr g'"
    and hp: "ps_heap st' = (ps_heap st)[global_props (ps_keyboard st) := g']"
    and ks: "keys (ps_keyboard st') = keys (ps_keyboard st)"
            "global_props (ps_keyboard st') = global_props (ps_keyboard st)"
    using assms(1) JObj
    by (auto simp: from_json_item_def Let_def ebind_Inr_iff update_at_def)
  have "snap_inv (ps_keyboard st) (ps_heap st') snaps"
    unfolding hp by (rule snap_inv_update[OF assms(2)])
  then have "snap_inv (ps_keyboard st') (ps_heap st') snaps"
    using ks by (simp add: snap_inv_def)
  moreover have "ps_heap st' ! global_props (ps_keyboard st) = g'"
    using assms(2) by (simp add: hp snap_inv_def)
  ultimately show ?thesis using JObj u ks by simp
qed (use assms in \<open>simp_all add: from_json_item_def\<close>)

lemma from_json_items_snap:
  assumes "from_json_items py st items = Inr st'"
    and "snap_inv (ps_keyboard st) (ps_heap st) snaps"
  shows "\<exists>ss. running_props py (ps_heap st ! global_props (ps_keyboard st)) items
               = Inr (ss, ps_heap st' ! global_props (ps_keyboard st)) \<and>
           snap_inv (ps_keyboard st') (ps_heap st') (snaps @ ss) \<and>
           global_props (ps_keyboard st') = global_props (ps_keyboard st) \<and>
           (\<exists>new. keys (ps_keyboard st') = keys (ps_keyboard st) @ new)"
  using assms
proof (induction items arbitrary: st snaps)
  case Nil
  then show ?case by simp
next
  case (Cons item items)
  obtain st1 where s1: "from_json_item py st item = Inr st1"
    and s2: "from_json_items py st1 items = Inr st'"
    using Cons.prems(1) by (auto simp: ebind_Inr_iff)
  obtain a where a: "running_props py (ps_heap st ! global_props (ps_keyboard st)) [item]
               = Inr (a, ps_heap st1 ! global_props (ps_keyboard st))"
     "snap_inv (ps_keyboard st1) (ps_heap st1) (snaps @ a)"
     "global_props (ps_keyboard st1) = global_props (ps_keyboard st)"
     "\<exists>new. keys (ps_keyboard st1) = keys (ps_keyboard st) @ new"
    using from_json_item_snap[OF s1 Cons.prems(2)] by blast
  obtain b where b: "running_props py (ps_heap st1 ! global_props (ps_keyboard st1)) items
               = Inr (b, ps_heap st' ! global_props (ps_keyboard st1))"
     "snap_inv (ps_keyboard st') (ps_heap st') ((snaps @ a) @ b)"
     "global_props (ps_keyboard st') = global_props (ps_keyboard st1)"
     "\<exists>new. keys (ps_keyboard st') = keys (ps_keyboard st1) @ new"
    using Cons.IH[OF s2 a(2)] by blast
  have "running_props py (ps_heap st ! global_props (ps_keyboard st)) ([item] @ items)
          = Inr (a @ b, ps_heap st' ! global_props (ps_keyboard st))"
    using a(1) b(1) unfolding a(3) by (rule running_props_append)
  then show ?case using b(2,3,4) a(3,4) by auto
qed

lemma from_json_row_snap:
  assumes "from_json_row py st r = Inr st'"
    and "snap_inv (ps_keyboard st) (ps_heap st) snaps"
  shows "\<exists>ss. running_props py (ps_heap st ! global_props (ps_keyboard st)) (row_items r)
               = Inr (ss, ps_heap st' ! global_props (ps_keyboard st)) \<and>
           snap_inv (ps_keyboard st') (ps_heap st') (snaps @ ss) \<and>
           global_props (ps_keyboard st') = global_props (ps_keyboard st) \<and>
           (\<exists>new. keys (ps_keyboard st') = keys (ps_keyboard st) @ new)"
proof (cases "\<exists>kvs. r = JObj kvs")
  case True
  then obtain kvs where r: "r = JObj kvs" by blast
  have "ps_heap st' = ps_heap st" "keys (ps_keyboard st') = keys (ps_keyboard st)"
       "global_props (ps_keyboard st') = global_props (ps_keyboard st)"
    using assms(1) r by (auto simp: from_json_row_def ebind_Inr_iff)
  then show ?thesis using assms(2) r by (simp add: row_items_def snap_inv_def)
next
  case False
  then obtain items st1 where it: "py_iter r = Inr items"
    and s1: "from_json_items py st items = Inr st1"
    and st': "st' = st1\<lparr>ps_keyboard := add_row (ps_keyboard st1)\<rparr>"
    using assms(1) by (cases r) (auto simp: from_json_row_def ebind_Inr_iff)
  have ri: "row_items r = items"
    using False it by (cases r) (simp_all add: row_items_def)
  obtain ss where ss: "running_props py (ps_heap st ! global_props (ps_keyboard st)) items
               = Inr (ss, ps_heap st1 ! global_props (ps_keyboard st))"
     "snap_inv (ps_keyboard st1) (ps_heap st1) (snaps @ ss)"
     "global_props (ps_keyboard st1) = global_props (ps_keyboard st)"
     "\<exists>new. keys (ps_keyboard st1) = keys (ps_keyboard st) @ new"
    using from_json_items_snap[OF s1 assms(2)] by blast
  show ?thesis
    using ss by (simp add: ri st' add_row_def snap_inv_def)
qed

lemma from_json_rows_snap:
  assumes "from_json_rows py st rows = Inr st'"
    and "snap_inv (ps_keyboard st) (ps_heap st) snaps"
  shows "\<exists>ss. running_props py (ps_heap st ! global_props (ps_keyboard st))
                 (concat (map row_items rows))
               = Inr (ss, ps_heap st' ! global_props (ps_keyboard st)) \<and>
           snap_inv (ps_keyboard st') (ps_heap st') (snaps @ ss) \<and>
           global_props (ps_keyboard st') = global_props (ps_keyboard st) \<and>
           (\<exists>new. keys (ps_keyboard st') = keys (ps_keyboard st) @ new)"
  using assms
proof (induction rows arbitrary: st snaps)
  case Nil
  then show ?case by simp
next
  case (Cons r rows)
  obtain st1 where s1: "from_json_row py st r = Inr st1"
    and s2: "from_json_rows py st1 rows = Inr st'"
    using Cons.prems(1) by (auto simp: ebind_Inr_iff)
  obtain a where a: "running_props py (ps_heap st ! global_props (ps_keyboard st)) (row_items r)
               = Inr (a, ps_heap st1 ! global_props (ps_keyboard st))"
     "snap_inv (ps_keyboard st1) (ps_heap st1) (snaps @ a)"
     "global_props (ps_keyboard st1) = global_props (ps_keyboard st)"
     "\<exists>new. keys (ps_keyboard st1) = keys (ps_keyboard st) @ new"
    using from_json_row_snap[OF s1 Cons.prems(2)] by blast
  obtain b where b: "running_props py (ps_heap st1 ! global_props (ps_keyboard st1))
                 (concat (map row_items rows))
               = Inr (b, ps_heap st' ! global_props (ps_keyboard st1))"
     "snap_inv (ps_keyboard st') (ps_heap st') ((snaps @ a) @ b)"
     "global_props (ps_keyboard st') = global_props (ps_keyboard st1)"
     "\<exists>new. keys (ps_keyboard st') = keys (ps_keyboard st1) @ new"
    using Cons.IH[OF s2 a(2)] by blast
  have "running_props py (ps_heap st ! global_props (ps_keyboard st))
          (row_items r @ concat (map row_items rows))
          = Inr (a @ b, ps_heap st' ! global_props (ps_keyboard st))"
    using a(1) b(1) unfolding a(3) by (rule running_props_append)
  then show ?case using b(2,3,4) a(3,4) by auto
qed

lemma from_json_snap:
  assumes "from_json py json_layout sp hp0 = Inr (kb, hp)"
  shows "running_props py KbProperties_init (layout_items json_layout)
           = Inr (map (\<lambda>k. hp ! k_properties k) (keys kb), hp ! global_props kb) \<and>
         map k_r (keys kb) = map (\<lambda>k. kb_r (hp ! k_properties k)) (keys kb) \<and>
         map k_u_rx (keys kb) = map (\<lambda>k. kb_rx (hp ! k_properties k)) (keys kb) \<and>
         map k_u_ry (keys kb) = map (\<lambda>k. kb_ry (hp ! k_properties k)) (keys kb) \<and>
         distinct (global_props kb # map k_properties (keys kb))"
proof -
  obtain rows st' where rows: "py_iter json_layout = Inr rows"
    and run: "from_json_rows py (from_json_start sp hp0) rows = Inr st'"
    and res: "kb = ps_keyboard st'" "hp = ps_heap st'"
    using assms by (auto simp: from_json_def ebind_Inr_iff)
  have inv0: "snap_inv (ps_keyboard (from_json_start sp hp0)) (ps_heap (from_json_start sp hp0)) []"
    by (simp add: start_state snap_inv_def)
  have g0: "ps_heap (from_json_start sp hp0) ! global_props (ps_keyboard (from_json_start sp hp0))
              = KbProperties_init"
    by (simp add: start_state)
  obtain ss where ss: "running_props py KbProperties_init (concat (map row_items rows))
               = Inr (ss, hp ! global_props (ps_keyboard (from_json_start sp hp0)))"
     "snap_inv kb hp ss"
     "global_props kb = global_props (ps_keyboard (from_json_start sp hp0))"
    using from_json_rows_snap[OF run inv0] unfolding g0 res by auto
  have cap: "list_all2 (captured hp) (keys kb) ss"
    and d: "distinct (global_props kb # map k_properties (keys kb))"
    using ss(2) by (simp_all add: snap_inv_def)
  have len: "length ss = length (keys kb)"
    using cap by (simp add: list_all2_lengthD)
  have nth: "\<And>i. i < length (keys kb) \<Longrightarrow> captured hp (keys kb ! i) (ss ! i)"
    using cap by (simp add: list_all2_conv_all_nth)
  have eq: "ss = map (\<lambda>k. hp ! k_properties k) (keys kb)"
    using len nth by (intro nth_equalityI) (simp_all add: captured_def)
  have r: "map k_r (keys kb) = map (\<lambda>k. kb_r (hp ! k_properties k)) (keys kb)"
    and rx: "map k_u_rx (keys kb) = map (\<lambda>k. kb_rx (hp ! k_properties k)) (keys kb)"
    and ry: "map k_u_ry (keys kb) = map (\<lambda>k. kb_ry (hp ! k_properties k)) (keys kb)"
    using nth by (auto simp: captured_def in_set_conv_nth)
  show ?thesis
    using ss(1) eq r rx ry d rows by (simp add: layout_items_def ss(3))
qed

lemma from_json_rows_append:
  "from_json_rows py st (xs @ ys) = ebind (from_json_rows py st xs) (\<lambda>st. from_json_rows py st ys)"
proof (induction xs arbitrary: st)
  case Nil
  then show ?case by simp
next
  case (Cons r xs)
  then show ?case by (cases "from_json_row py st r") simp_all
qed

lemma later_rows_keep_snapshots:
  assumes "from_json_rows py st rows = Inr st'"
    and "snap_inv (ps_keyboard st) (ps_heap st) snaps"
  shows "(\<exists>new. keys (ps_keyboard st') = keys (ps_keyboard st) @ new) \<and>
         list_all (\<lambda>k. ps_heap st' ! k_properties k = ps_heap st ! k_properties k)
           (keys (ps_keyboard st))"
proof -
  obtain ss new where inv': "snap_inv (ps_keyboard st') (ps_heap st') (snaps @ ss)"
    and new: "keys (ps_keyboard st') = keys (ps_keyboard st) @ new"
    using from_json_rows_snap[OF assms] by blast
  have c: "list_all2 (captured (ps_heap st)) (keys (ps_keyboard st)) snaps"
    using assms(2) by (simp add: snap_inv_def)
  then have len: "length (keys (ps_keyboard st)) = length snaps"
    by (rule list_all2_lengthD)
  have "list_all2 (captured (ps_heap st')) (keys (ps_keyboard st) @ new) (snaps @ ss)"
    using inv' new by (simp add: snap_inv_def)
  then have c': "list_all2 (captured (ps_heap st')) (keys (ps_keyboard st)) snaps"
    using len by (simp add: list_all2_append)
  have "ps_heap st' ! k_properties k = ps_heap st ! k_properties k"
    if mem: "k \<in> set (keys (ps_keyboard st))" for k
  proof -
    obtain i where i: "i < length (keys (ps_keyboard st))" "keys (ps_keyboard st) ! i = k"
      using mem unfolding in_set_conv_nth by blast
    have "captured (ps_heap st) (keys (ps_keyboard st) ! i) (snaps ! i)"
      using c i(1) by (simp add: list_all2_conv_all_nth)
    moreover have "captured (ps_heap st') (keys (ps_keyboard st) ! i) (snaps ! i)"
      using c' i(1) by (simp add: list_all2_conv_all_nth)
    ultimately have "captured (ps_heap st) k (snaps ! i)" "captured (ps_heap st') k (snaps ! i)"
      unfolding i(2) by blast+
    then show ?thesis by (simp add: captured_def)
  qed
  then show ?thesis using new by (simp add: list_all_iff)
qed

lemma from_json_prefix:
  assumes "from_json py (JArr (rows1 @ rows2)) sp hp0 = Inr (kb, hp)"
    and "from_json py (JArr rows1) sp hp0 = Inr (kb1, hp1)"
  shows "(\<exists>new. keys kb = keys kb1 @ new) \<and>
         list_all (\<lambda>k. hp ! k_properties k = hp1 ! k_properties k) (keys kb1)"
proof -
  obtain st1 where r1: "from_json_rows py (from_json_start sp hp0) rows1 = Inr st1"
    and k1: "kb1 = ps_keyboard st1" "hp1 = ps_heap st1"
    using assms(2) by (auto simp: from_json_def py_iter_def ebind_Inr_iff)
  obtain st' where r: "from_json_rows py (from_json_start sp hp0) (rows1 @ rows2) = Inr st'"
    and k: "kb = ps_keyboard st'" "hp = ps_heap st'"
    using assms(1) by (auto simp: from_json_def py_iter_def ebind_Inr_iff)
  have r2: "from_json_rows py st1 rows2 = Inr st'"
    using r r1 by (simp add: from_json_rows_append)
  have inv0: "snap_inv (ps_keyboard (from_json_start sp hp0)) (ps_heap (from_json_start sp hp0)) []"
    by (simp add: start_state snap_inv_def)
  obtain ss where "snap_inv (ps_keyboard st1) (ps_heap st1) ([] @ ss)"
    using from_json_rows_snap[OF r1 inv0] by blast
  then show ?thesis
    using later_rows_keep_snapshots[OF r2] k k1 by simp
qed

lemma dict_has_map_of: "dict_has obj n \<longleftrightarrow> map_of obj n \<noteq> None"
  by (simp add: dict_has_def map_of_eq_None_iff)

lemma on_field_Inr:
  assumes "on_field obj n conv assign t = Inr t'"
  shows "case map_of obj n of None \<Rightarrow> t' = t | Some j \<Rightarrow> \<exists>v. conv j = Inr v \<and> t' = assign v t"
  using assms
  by (auto simp: on_field_def dict_has_map_of dict_get_def ebind_Inr_iff
           split: option.splits if_splits)

lemma on_field_other:
  assumes "on_field obj n conv assign t = Inr t'" and "\<And>v s. f (assign v s) = f s"
  shows "f t' = f t"
  using on_field_Inr[OF assms(1)] assms(2) by (auto split: option.splits)

lemma update_steps:
  assumes "update py g obj = Inr g'"
  shows "\<exists>g1 g2 g3 g4 g5 g6 g7 g8 g9.
     on_field obj ''c'' (\<lambda>j. Inr (str_of py j)) (\<lambda>v g. g\<lparr>kb_bg := v\<rparr>) g = Inr g1 \<and>
     on_field obj ''t'' (\<lambda>j. Inr (str_of py j)) (\<lambda>v g. g\<lparr>kb_fg := v\<rparr>) g1 = Inr g2 \<and>
     on_field obj ''g'' (\<lambda>j. Inr (py_bool j)) (\<lambda>v g. g\<lparr>kb_ghosted := v\<rparr>) g2 = Inr g3 \<and>
     on_field obj ''a'' (py_int py) (\<lambda>v g. g\<lparr>kb_text_alignment := Some v\<rparr>) g3 = Inr g4 \<and>
     on_field obj ''f'' (py_int py) (\<lambda>v g. g\<lparr>kb_font_primary := v\<rparr>) g4 = Inr g5 \<and>
     on_field obj ''f2'' (py_int py) (\<lambda>v g. g\<lparr>kb_font_secondary := v\<rparr>) g5 = Inr g6 \<and>
     on_field obj ''p'' (\<lambda>j. Inr (str_of py j)) (\<lambda>v g. g\<lparr>kb_profile := Some v\<rparr>) g6 = Inr g7 \<and>
     on_field obj ''r'' (py_float py) (\<lambda>v g. g\<lparr>kb_r := v\<rparr>) g7 = Inr g8 \<and>
     on_field obj ''rx'' (py_float py) (\<lambda>v g. g\<lparr>kb_rx := v\<rparr>) g8 = Inr g9 \<and>
     on_field obj ''ry'' (py_float py) (\<lambda>v g. g\<lparr>kb_ry := v\<rparr>) g9 = Inr g'"
  using assms by (auto simp: update_def ebind_Inr_iff)

lemma update_field_c:
  assumes "update py g obj = Inr g'"
  shows "case map_of obj ''c'' of None \<Rightarrow> kb_bg g' = kb_bg g | Some j \<Rightarrow> field_is py ''c'' j g'"
proof -
  obtain g1 g2 g3 g4 g5 g6 g7 g8 g9 where
    s1: "on_field obj ''c'' (\<lambda>j. Inr (str_of py j)) (\<lambda>v g. g\<lparr>kb_bg := v\<rparr>) g = Inr g1" and
    s2: "on_field obj ''t'' (\<lambda>j. Inr (str_of py j)) (\<lambda>v g. g\<lparr>kb_fg := v\<rparr>) g1 = Inr g2" and
    s3: "on_field obj ''g'' (\<lambda>j. Inr (py_bool j)) (\<lambda>v g. g\<lparr>kb_ghosted := v\<rparr>) g2 = Inr g3" and
    s4: "on_field obj ''a'' (py_int py) (\<lambda>v g. g\<lparr>kb_text_alignment := Some v\<rparr>) g3 = Inr g4" and
    s5: "on_field obj ''f'' (py_int py) (\<lambda>v g. g\<lparr>kb_font_primary := v\<rparr>) g4 = Inr g5" and
    s6: "on_field obj ''f2'' (py_int py) (\<lambda>v g. g\<lparr>kb_font_secondary := v\<rparr>) g5 = Inr g6" and
    s7: "on_field obj ''p'' (\<lambda>j. Inr (str_of py j)) (\<lambda>v g. g\<lparr>kb_profile := Some v\<rparr>) g6 = Inr g7" and
    s8: "on_field obj ''r'' (py_float py) (\<lambda>v g. g\<lparr>kb_r := v\<rparr>) g7 = Inr g8" and
    s9: "on_field obj ''rx'' (py_float py) (\<lambda>v g. g\<lparr>kb_rx := v\<rparr>) g8 = Inr g9" and
    s10: "on_field obj ''ry'' (py_float py) (\<lambda>v g. g\<lparr>kb_ry := v\<rparr>) g9 = Inr g'"
    using update_steps[OF assms] by blast
  have before: "kb_bg g = kb_bg g" by simp
  have after: "kb_bg g' = kb_bg g1"
    using on_field_other[OF s2, of kb_bg] on_field_other[OF s3, of kb_bg] on_field_other[OF s4, of kb_bg] on_field_other[OF s5, of kb_bg] on_field_other[OF s6, of kb_bg] on_field_other[OF s7, of kb_bg] on_field_other[OF s8, of kb_bg] on_field_other[OF s9, of kb_bg] on_field_other[OF s10, of kb_bg] by simp
  show ?thesis
    using on_field_Inr[OF s1] before after
    by (auto simp: field_is_def split: option.splits)
qed

lemma update_field_t:
  assumes "update py g obj = Inr g'"
  shows "case map_of obj ''t'' of None \<Rightarrow> kb_fg g' = kb_fg g | Some j \<Rightarrow> field_is py ''t'' j g'"
proof -
  obtain g1 g2 g3 g4 g5 g6 g7 g8 g9 where
    s1: "on_field obj ''c'' (\<lambda>j. Inr (str_of py j)) (\<lambda>v g. g\<lparr>kb_bg := v\<rparr>) g = Inr g1" and
    s2: "on_field obj ''t'' (\<lambda>j. Inr (str_of py j)) (\<lambda>v g. g\<lparr>kb_fg := v\<rparr>) g1 = Inr g2" and
    s3: "on_field obj ''g'' (\<lambda>j. Inr (py_bool j)) (\<lambda>v g. g\<lparr>kb_ghosted := v\<rparr>) g2 = Inr g3" and
    s4: "on_field obj ''a'' (py_int py) (\<lambda>v g. g\<lparr>kb_text_alignment := Some v\<rparr>) g3 = Inr g4" and
    s5: "on_field obj ''f'' (py_int py) (\<lambda>v g. g\<lparr>kb_font_primary := v\<rparr>) g4 = Inr g5" and
    s6: "on_field obj ''f2'' (py_int py) (\<lambda>v g. g\<lparr>kb_font_secondary := v\<rparr>) g5 = Inr g6" and
    s7: "on_field obj ''p'' (\<lambda>j. Inr (str_of py j)) (\<lambda>v g. g\<lparr>kb_profile := Some v\<rparr>) g6 = Inr g7" and
    s8: "on_field obj ''r'' (py_float py) (\<lambda>v g. g\<lparr>kb_r := v\<rparr>) g7 = Inr g8" and
    s9: "on_field obj ''rx'' (py_float py) (\<lambda>v g. g\<lparr>kb_rx := v\<rparr>) g8 = Inr g9" and
    s10: "on_field obj ''ry'' (py_float py) (\<lambda>v g. g\<lparr>kb_ry := v\<rparr>) g9 = Inr g'"
    using update_steps[OF assms] by blast
  have before: "kb_fg g1 = kb_fg g"
    using on_field_other[OF s1, of kb_fg] by simp
  have after: "kb_fg g' = kb_fg g2"
    using on_field_other[OF s3, of kb_fg] on_field_other[OF s4, of kb_fg] on_field_other[OF s5, of kb_fg] on_field_other[OF s6, of kb_fg] on_field_other[OF s7, of kb_fg] on_field_other[OF s8, of kb_fg] on_field_other[OF s9, of kb_fg] on_field_other[OF s10, of kb_fg] by simp
  show ?thesis
    using on_field_Inr[OF s2] before after
    by (auto simp: field_is_def split: option.splits)
qed

lemma update_field_g:
  assumes "update py g obj = Inr g'"
  shows "case map_of obj ''g'' of None \<Rightarrow> kb_ghosted g' = kb_ghosted g | Some j \<Rightarrow> field_is py ''g'' j g'"
proof -
  obtain g1 g2 g3 g4 g5 g6 g7 g8 g9 where
    s1: "on_field obj ''c'' (\<lambda>j. Inr (str_of py j)) (\<lambda>v g. g\<lparr>kb_bg := v\<rparr>) g = Inr g1" and
    s2: "on_field obj ''t'' (\<lambda>j. Inr (str_of py j)) (\<lambda>v g. g\<lparr>kb_fg := v\<rparr>) g1 = Inr g2" and
    s3: "on_field obj ''g'' (\<lambda>j. Inr (py_bool j)) (\<lambda>v g. g\<lparr>kb_ghosted := v\<rparr>) g2 = Inr g3" and
    s4: "on_field obj ''a'' (py_int py) (\<lambda>v g. g\<lparr>kb_text_alignment := Some v\<rparr>) g3 = Inr g4" and
    s5: "on_field obj ''f'' (py_int py) (\<lambda>v g. g\<lparr>kb_font_primary := v\<rparr>) g4 = Inr g5" and
    s6: "on_field obj ''f2'' (py_int py) (\<lambda>v g. g\<lparr>kb_font_secondary := v\<rparr>) g5 = Inr g6" and
    s7: "on_field obj ''p'' (\<lambda>j. Inr (str_of py j)) (\<lambda>v g. g\<lparr>kb_profile := Some v\<rparr>) g6 = Inr g7" and
    s8: "on_field obj ''r'' (py_float py) (\<lambda>v g. g\<lparr>kb_r := v\<rparr>) g7 = Inr g8" and
    s9: "on_field obj ''rx'' (py_float py) (\<lambda>v g. g\<lparr>kb_rx := v\<rparr>) g8 = Inr g9" and
    s10: "on_field obj ''ry'' (py_float py) (\<lambda>v g. g\<lparr>kb_ry := v\<rparr>) g9 = Inr g'"
    using update_steps[OF assms] by blast
  have before: "kb_ghosted g2 = kb_ghosted g"
    using on_field_other[OF s1, of kb_ghosted] on_field_other[OF s2, of kb_ghosted] by simp
  have after: "kb_ghosted g' = kb_ghosted g3"
    using on_field_other[OF s4, of kb_ghosted] on_field_other[OF s5, of kb_ghosted] on_field_other[OF s6, of kb_ghosted] on_field_other[OF s7, of kb_ghosted] on_field_other[OF s8, of kb_ghosted] on_field_other[OF s9, of kb_ghosted] on_field_other[OF s10, of kb_ghosted] by simp
  show ?thesis
    using on_field_Inr[OF s3] before after
    by (auto simp: field_is_def split: option.splits)
qed

lemma update_field_a:
  assumes "update py g obj = Inr g'"
  shows "case map_of obj ''a'' of None \<Rightarrow> kb_text_alignment g' = kb_text_alignment g | Some j \<Rightarrow> field_is py ''a'' j g'"
proof -
  obtain g1 g2 g3 g4 g5 g6 g7 g8 g9 where
    s1: "on_field obj ''c'' (\<lambda>j. Inr (str_of py j)) (\<lambda>v g. g\<lparr>kb_bg := v\<rparr>) g = Inr g1" and
    s2: "on_field obj ''t'' (\<lambda>j. Inr (str_of py j)) (\<lambda>v g. g\<lparr>kb_fg := v\<rparr>) g1 = Inr g2" and
    s3: "on_field obj ''g'' (\<lambda>j. Inr (py_bool j)) (\<lambda>v g. g\<lparr>kb_ghosted := v\<rparr>) g2 = Inr g3" and
    s4: "on_field obj ''a'' (py_int py) (\<lambda>v g. g\<lparr>kb_text_alignment := Some v\<rparr>) g3 = Inr g4" and
    s5: "on_field obj ''f'' (py_int py) (\<lambda>v g. g\<lparr>kb_font_primary := v\<rparr>) g4 = Inr g5" and
    s6: "on_field obj ''f2'' (py_int py) (\<lambda>v g. g\<lparr>kb_font_secondary := v\<rparr>) g5 = Inr g6" and
    s7: "on_field obj ''p'' (\<lambda>j. Inr (str_of py j)) (\<lambda>v g. g\<lparr>kb_profile := Some v\<rparr>) g6 = Inr g7" and
    s8: "on_field obj ''r'' (py_float py) (\<lambda>v g. g\<lparr>kb_r := v\<rparr>) g7 = Inr g8" and
    s9: "on_field obj ''rx'' (py_float py) (\<lambda>v g. g\<lparr>kb_rx := v\<rparr>) g8 = Inr g9" and
    s10: "on_field obj ''ry'' (py_float py) (\<lambda>v g. g\<lparr>kb_ry := v\<rparr>) g9 = Inr g'"
    using update_steps[OF assms] by blast
  have before: "kb_text_alignment g3 = kb_text_alignment g"
    using on_field_other[OF s1, of kb_text_alignment] on_field_other[OF s2, of kb_text_alignment] on_field_other[OF s3, of kb_text_alignment] by simp
  have after: "kb_text_alignment g' = kb_text_alignment g4"
    using on_field_other[OF s5, of kb_text_alignment] on_field_other[OF s6, of kb_text_alignment] on_field_other[OF s7, of kb_text_alignment] on_field_other[OF s8, of kb_text_alignment] on_field_other[OF s9, of kb_text_alignment] on_field_other[OF s10, of kb_text_alignment] by simp
  show ?thesis
    using on_field_Inr[OF s4] before after
    by (auto simp: field_is_def split: option.splits)
qed

lemma update_field_f:
  assumes "update py g obj = Inr g'"
  shows "case map_of obj ''f'' of None \<Rightarrow> kb_font_primary g' = kb_font_primary g | Some j \<Rightarrow> field_is py ''f'' j g'"
proof -
  obtain g1 g2 g3 g4 g5 g6 g7 g8 g9 where
    s1: "on_field obj ''c'' (\<lambda>j. Inr (str_of py j)) (\<lambda>v g. g\<lparr>kb_bg := v\<rparr>) g = Inr g1" and
    s2: "on_field obj ''t'' (\<lambda>j. Inr (str_of py j)) (\<lambda>v g. g\<lparr>kb_fg := v\<rparr>) g1 = Inr g2" and
    s3: "on_field obj ''g'' (\<lambda>j. Inr (py_bool j)) (\<lambda>v g. g\<lparr>kb_ghosted := v\<rparr>) g2 = Inr g3" and
    s4: "on_field obj ''a'' (py_int py) (\<lambda>v g. g\<lparr>kb_text_alignment := Some v\<rparr>) g3 = Inr g4" and
    s5: "on_field obj ''f'' (py_int py) (\<lambda>v g. g\<lparr>kb_font_primary := v\<rparr>) g4 = Inr g5" and
    s6: "on_field obj ''f2'' (py_int py) (\<lambda>v g. g\<lparr>kb_font_secondary := v\<rparr>) g5 = Inr g6" and
    s7: "on_field obj ''p'' (\<lambda>j. Inr (str_of py j)) (\<lambda>v g. g\<lparr>kb_profile := Some v\<rparr>) g6 = Inr g7" and
    s8: "on_field obj ''r'' (py_float py) (\<lambda>v g. g\<lparr>kb_r := v\<rparr>) g7 = Inr g8" and
    s9: "on_field obj ''rx'' (py_float py) (\<lambda>v g. g\<lparr>kb_rx := v\<rparr>) g8 = Inr g9" and
    s10: "on_field obj ''ry'' (py_float py) (\<lambda>v g. g\<lparr>kb_ry := v\<rparr>) g9 = Inr g'"
    using update_steps[OF assms] by blast
  have before: "kb_font_primary g4 = kb_font_primary g"
    using on_field_other[OF s1, of kb_font_primary] on_field_other[OF s2, of kb_font_primary] on_field_other[OF s3, of kb_font_primary] on_field_other[OF s4, of kb_font_primary] by simp
  have after: "kb_font_primary g' = kb_font_primary g5"
    using on_field_other[OF s6, of kb_font_primary] on_field_other[OF s7, of kb_font_primary] on_field_other[OF s8, of kb_font_primary] on_field_other[OF s9, of kb_font_primary] on_field_other[OF s10, of kb_font_primary] by simp
  show ?thesis
    using on_field_Inr[OF s5] before after
    by (auto simp: field_is_def split: option.splits)
qed

lemma update_field_f2:
  assumes "update py g obj = Inr g'"
  shows "case map_of obj ''f2'' of None \<Rightarrow> kb_font_secondary g' = kb_font_secondary g | Some j \<Rightarrow> field_is py ''f2'' j g'"
proof -
  obtain g1 g2 g3 g4 g5 g6 g7 g8 g9 where
    s1: "on_field obj ''c'' (\<lambda>j. Inr (str_of py j)) (\<lambda>v g. g\<lparr>kb_bg := v\<rparr>) g = Inr g1" and
    s2: "on_field obj ''t'' (\<lambda>j. Inr (str_of py j)) (\<lambda>v g. g\<lparr>kb_fg := v\<rparr>) g1 = Inr g2" and
    s3: "on_field obj ''g'' (\<lambda>j. Inr (py_bool j)) (\<lambda>v g. g\<lparr>kb_ghosted := v\<rparr>) g2 = Inr g3" and
    s4: "on_field obj ''a'' (py_int py) (\<lambda>v g. g\<lparr>kb_text_alignment := Some v\<rparr>) g3 = Inr g4" and
    s5: "on_field obj ''f'' (py_int py) (\<lambda>v g. g\<lparr>kb_font_primary := v\<rparr>) g4 = Inr g5" and
    s6: "on_field obj ''f2'' (py_int py) (\<lambda>v g. g\<lparr>kb_font_secondary := v\<rparr>) g5 = Inr g6" and
    s7: "on_field obj ''p'' (\<lambda>j. Inr (str_of py j)) (\<lambda>v g. g\<lparr>kb_profile := Some v\<rparr>) g6 = Inr g7" and
    s8: "on_field obj ''r'' (py_float py) (\<lambda>v g. g\<lparr>kb_r := v\<rparr>) g7 = Inr g8" and
    s9: "on_field obj ''rx'' (py_float py) (\<lambda>v g. g\<lparr>kb_rx := v\<rparr>) g8 = Inr g9" and
    s10: "on_field obj ''ry'' (py_float py) (\<lambda>v g. g\<lparr>kb_ry := v\<rparr>) g9 = Inr g'"
    using update_steps[OF assms] by blast
  have before: "kb_font_secondary g5 = kb_font_secondary g"
    using on_field_other[OF s1, of kb_font_secondary] on_field_other[OF s2, of kb_font_secondary] on_field_other[OF s3, of kb_font_secondary] on_field_other[OF s4, of kb_font_secondary] on_field_other[OF s5, of kb_font_secondary] by simp
  have after: "kb_font_secondary g' = kb_font_secondary g6"
    using on_field_other[OF s7, of kb_font_secondary] on_field_other[OF s8, of kb_font_secondary] on_field_other[OF s9, of kb_font_secondary] on_field_other[OF s10, of kb_font_secondary] by simp
  show ?thesis
    using on_field_Inr[OF s6] before after
    by (auto simp: field_is_def split: option.splits)
qed

lemma update_field_p:
  assumes "update py g obj = Inr g'"
  shows "case map_of obj ''p'' of None \<Rightarrow> kb_profile g' = kb_profile g | Some j \<Rightarrow> field_is py ''p'' j g'"
proof -
  obtain g1 g2 g3 g4 g5 g6 g7 g8 g9 where
    s1: "on_field obj ''c'' (\<lambda>j. Inr (str_of py j)) (\<lambda>v g. g\<lparr>kb_bg := v\<rparr>) g = Inr g1" and
    s2: "on_field obj ''t'' (\<lambda>j. Inr (str_of py j)) (\<lambda>v g. g\<lparr>kb_fg := v\<rparr>) g1 = Inr g2" and
    s3: "on_field obj ''g'' (\<lambda>j. Inr (py_bool j)) (\<lambda>v g. g\<lparr>kb_ghosted := v\<rparr>) g2 = Inr g3" and
    s4: "on_field obj ''a'' (py_int py) (\<lambda>v g. g\<lparr>kb_text_alignment := Some v\<rparr>) g3 = Inr g4" and
    s5: "on_field obj ''f'' (py_int py) (\<lambda>v g. g\<lparr>kb_font_primary := v\<rparr>) g4 = Inr g5" and
    s6: "on_field obj ''f2'' (py_int py) (\<lambda>v g. g\<lparr>kb_font_secondary := v\<rparr>) g5 = Inr g6" and
    s7: "on_field obj ''p'' (\<lambda>j. Inr (str_of py j)) (\<lambda>v g. g\<lparr>kb_profile := Some v\<rparr>) g6 = Inr g7" and
    s8: "on_field obj ''r'' (py_float py) (\<lambda>v g. g\<lparr>kb_r := v\<rparr>) g7 = Inr g8" and
    s9: "on_field obj ''rx'' (py_float py) (\<lambda>v g. g\<lparr>kb_rx := v\<rparr>) g8 = Inr g9" and
    s10: "on_field obj ''ry'' (py_float py) (\<lambda>v g. g\<lparr>kb_ry := v\<rparr>) g9 = Inr g'"
    using update_steps[OF assms] by blast
  have before: "kb_profile g6 = kb_profile g"
    using on_field_other[OF s1, of kb_profile] on_field_other[OF s2, of kb_profile] on_field_other[OF s3, of kb_profile] on_field_other[OF s4, of kb_profile] on_field_other[OF s5, of kb_profile] on_field_other[OF s6, of kb_profile] by simp
  have after: "kb_profile g' = kb_profile g7"
    using on_field_other[OF s8, of kb_profile] on_field_other[OF s9, of kb_profile] on_field_other[OF s10, of kb_profile] by simp
  show ?thesis
    using on_field_Inr[OF s7] before after
    by (auto simp: field_is_def split: option.splits)
qed

lemma update_field_r:
  assumes "update py g obj = Inr g'"
  shows "case map_of obj ''r'' of None \<Rightarrow> kb_r g' = kb_r g | Some j \<Rightarrow> field_is py ''r'' j g'"
proof -
  obtain g1 g2 g3 g4 g5 g6 g7 g8 g9 where
    s1: "on_field obj ''c'' (\<lambda>j. Inr (str_of py j)) (\<lambda>v g. g\<lparr>kb_bg := v\<rparr>) g = Inr g1" and
    s2: "on_field obj ''t'' (\<lambda>j. Inr (str_of py j)) (\<lambda>v g. g\<lparr>kb_fg := v\<rparr>) g1 = Inr g2" and
    s3: "on_field obj ''g'' (\<lambda>j. Inr (py_bool j)) (\<lambda>v g. g\<lparr>kb_ghosted := v\<rparr>) g2 = Inr g3" and
    s4: "on_field obj ''a'' (py_int py) (\<lambda>v g. g\<lparr>kb_text_alignment := Some v\<rparr>) g3 = Inr g4" and
    s5: "on_field obj ''f'' (py_int py) (\<lambda>v g. g\<lparr>kb_font_primary := v\<rparr>) g4 = Inr g5" and
    s6: "on_field obj ''f2'' (py_int py) (\<lambda>v g. g\<lparr>kb_font_secondary := v\<rparr>) g5 = Inr g6" and
    s7: "on_field obj ''p'' (\<lambda>j. Inr (str_of py j)) (\<lambda>v g. g\<lparr>kb_profile := Some v\<rparr>) g6 = Inr g7" and
    s8: "on_field obj ''r'' (py_float py) (\<lambda>v g. g\<lparr>kb_r := v\<rparr>) g7 = Inr g8" and
    s9: "on_field obj ''rx'' (py_float py) (\<lambda>v g. g\<lparr>kb_rx := v\<rparr>) g8 = Inr g9" and
    s10: "on_field obj ''ry'' (py_float py) (\<lambda>v g. g\<lparr>kb_ry := v\<rparr>) g9 = Inr g'"
    using update_steps[OF assms] by blast
  have before: "kb_r g7 = kb_r g"
    using on_field_other[OF s1, of kb_r] on_field_other[OF s2, of kb_r] on_field_other[OF s3, of kb_r] on_field_other[OF s4, of kb_r] on_field_other[OF s5, of kb_r] on_field_other[OF s6, of kb_r] on_field_other[OF s7, of kb_r] by simp
  have after: "kb_r g' = kb_r g8"
    using on_field_other[OF s9, of kb_r] on_field_other[OF s10, of kb_r] by simp
  show ?thesis
    using on_field_Inr[OF s8] before after
    by (auto simp: field_is_def split: option.splits)
qed

lemma update_field_rx:
  assumes "update py g obj = Inr g'"
  shows "case map_of obj ''rx'' of None \<Rightarrow> kb_rx g' = kb_rx g | Some j \<Rightarrow> field_is py ''rx'' j g'"
proof -
  obtain g1 g2 g3 g4 g5 g6 g7 g8 g9 where
    s1: "on_field obj ''c'' (\<lambda>j. Inr (str_of py j)) (\<lambda>v g. g\<lparr>kb_bg := v\<rparr>) g = Inr g1" and
    s2: "on_field obj ''t'' (\<lambda>j. Inr (str_of py j)) (\<lambda>v g. g\<lparr>kb_fg := v\<rparr>) g1 = Inr g2" and
    s3: "on_field obj ''g'' (\<lambda>j. Inr (py_bool j)) (\<lambda>v g. g\<lparr>kb_ghosted := v\<rparr>) g2 = Inr g3" and
    s4: "on_field obj ''a'' (py_int py) (\<lambda>v g. g\<lparr>kb_text_alignment := Some v\<rparr>) g3 = Inr g4" and
    s5: "on_field obj ''f'' (py_int py) (\<lambda>v g. g\<lparr>kb_font_primary := v\<rparr>) g4 = Inr g5" and
    s6: "on_field obj ''f2'' (py_int py) (\<lambda>v g. g\<lparr>kb_font_secondary := v\<rparr>) g5 = Inr g6" and
    s7: "on_field obj ''p'' (\<lambda>j. Inr (str_of py j)) (\<lambda>v g. g\<lparr>kb_profile := Some v\<rparr>) g6 = Inr g7" and
    s8: "on_field obj ''r'' (py_float py) (\<lambda>v g. g\<lparr>kb_r := v\<rparr>) g7 = Inr g8" and
    s9: "on_field obj ''rx'' (py_float py) (\<lambda>v g. g\<lparr>kb_rx := v\<rparr>) g8 = Inr g9" and
    s10: "on_field obj ''ry'' (py_float py) (\<lambda>v g. g\<lparr>kb_ry := v\<rparr>) g9 = Inr g'"
    using update_steps[OF assms] by blast
  have before: "kb_rx g8 = kb_rx g"
    using on_field_other[OF s1, of kb_rx] on_field_other[OF s2, of kb_rx] on_field_other[OF s3, of kb_rx] on_field_other[OF s4, of kb_rx] on_field_other[OF s5, of kb_rx] on_field_other[OF s6, of kb_rx] on_field_other[OF s7, of kb_rx] on_field_other[OF s8, of kb_rx] by simp
  have after: "kb_rx g' = kb_rx g9"
    using on_field_other[OF s10, of kb_rx] by simp
  show ?thesis
    using on_field_Inr[OF s9] before after
    by (auto simp: field_is_def split: option.splits)
qed

lemma update_field_ry:
  assumes "update py g obj = Inr g'"
  shows "case map_of obj ''ry'' of None \<Rightarrow> kb_ry g' = kb_ry g | Some j \<Rightarrow> field_is py ''ry'' j g'"
proof -
  obtain g1 g2 g3 g4 g5 g6 g7 g8 g9 where
    s1: "on_field obj ''c'' (\<lambda>j. Inr (str_of py j)) (\<lambda>v g. g\<lparr>kb_bg := v\<rparr>) g = Inr g1" and
    s2: "on_field obj ''t'' (\<lambda>j. Inr (str_of py j)) (\<lambda>v g. g\<lparr>kb_fg := v\<rparr>) g1 = Inr g2" and
    s3: "on_field obj ''g'' (\<lambda>j. Inr (py_bool j)) (\<lambda>v g. g\<lparr>kb_ghosted := v\<rparr>) g2 = Inr g3" and
    s4: "on_field obj ''a'' (py_int py) (\<lambda>v g. g\<lparr>kb_text_alignment := Some v\<rparr>) g3 = Inr g4" and
    s5: "on_field obj ''f'' (py_int py) (\<lambda>v g. g\<lparr>kb_font_primary := v\<rparr>) g4 = Inr g5" and
    s6: "on_field obj ''f2'' (py_int py) (\<lambda>v g. g\<lparr>kb_font_secondary := v\<rparr>) g5 = Inr g6" and
    s7: "on_field obj ''p'' (\<lambda>j. Inr (str_of py j)) (\<lambda>v g. g\<lparr>kb_profile := Some v\<rparr>) g6 = Inr g7" and
    s8: "on_field obj ''r'' (py_float py) (\<lambda>v g. g\<lparr>kb_r := v\<rparr>) g7 = Inr g8" and
    s9: "on_field obj ''rx'' (py_float py) (\<lambda>v g. g\<lparr>kb_rx := v\<rparr>) g8 = Inr g9" and
    s10: "on_field obj ''ry'' (py_float py) (\<lambda>v g. g\<lparr>kb_ry := v\<rparr>) g9 = Inr g'"
    using update_steps[OF assms] by blast
  have before: "kb_ry g9 = kb_ry g"
    using on_field_other[OF s1, of kb_ry] on_field_other[OF s2, of kb_ry] on_field_other[OF s3, of kb_ry] on_field_other[OF s4, of kb_ry] on_field_other[OF s5, of kb_ry] on_field_other[OF s6, of kb_ry] on_field_other[OF s7, of kb_ry] on_field_other[OF s8, of kb_ry] on_field_other[OF s9, of kb_ry] by simp
  have after: "kb_ry g' = kb_ry g'" by simp
  show ?thesis
    using on_field_Inr[OF s10] before after
    by (auto simp: field_is_def split: option.splits)
qed

lemma style_fields_cases:
  assumes "n \<in> set style_fields"
  obtains "n = ''c''" | "n = ''t''" | "n = ''g''" | "n = ''a''" | "n = ''f''" | "n = ''f2''" | "n = ''p''" | "n = ''r''" | "n = ''rx''" | "n = ''ry''"
  using assms unfolding style_fields_def by auto

lemma update_sets_field:
  assumes "update py g obj = Inr g'" and "n \<in> set style_fields" and "map_of obj n = Some j"
  shows "field_is py n j g'"
  using assms(2)
proof (cases rule: style_fields_cases)
  case 1
  then show ?thesis using update_field_c[OF assms(1)] assms(3) by simp
next
  case 2
  then show ?thesis using update_field_t[OF assms(1)] assms(3) by simp
next
  case 3
  then show ?thesis using update_field_g[OF assms(1)] assms(3) by simp
next
  case 4
  then show ?thesis using update_field_a[OF assms(1)] assms(3) by simp
next
  case 5
  then show ?thesis using update_field_f[OF assms(1)] assms(3) by simp
next
  case 6
  then show ?thesis using update_field_f2[OF assms(1)] assms(3) by simp
next
  case 7
  then show ?thesis using update_field_p[OF assms(1)] assms(3) by simp
next
  case 8
  then show ?thesis using update_field_r[OF assms(1)] assms(3) by simp
next
  case 9
  then show ?thesis using update_field_rx[OF assms(1)] assms(3) by simp
next
  case 10
  then show ?thesis using update_field_ry[OF assms(1)] assms(3) by simp
qed

lemma update_keeps_field:
  assumes "update py g obj = Inr g'" and "n \<in> set style_fields" and "\<not> dict_has obj n"
    and "field_is py n j g"
  shows "field_is py n j g'"
  using assms(2)
proof (cases rule: style_fields_cases)
  case 1
  then show ?thesis using update_field_c[OF assms(1)] assms(3,4)
    by (simp add: dict_has_map_of field_is_def)
next
  case 2
  then show ?thesis using update_field_t[OF assms(1)] assms(3,4)
    by (simp add: dict_has_map_of field_is_def)
next
  case 3
  then show ?thesis using update_field_g[OF assms(1)] assms(3,4)
    by (simp add: dict_has_map_of field_is_def)
next
  case 4
  then show ?thesis using update_field_a[OF assms(1)] assms(3,4)
    by (simp add: dict_has_map_of field_is_def)
next
  case 5
  then show ?thesis using update_field_f[OF assms(1)] assms(3,4)
    by (simp add: dict_has_map_of field_is_def)
next
  case 6
  then show ?thesis using update_field_f2[OF assms(1)] assms(3,4)
    by (simp add: dict_has_map_of field_is_def)
next
  case 7
  then show ?thesis using update_field_p[OF assms(1)] assms(3,4)
    by (simp add: dict_has_map_of field_is_def)
next
  case 8
  then show ?thesis using update_field_r[OF assms(1)] assms(3,4)
    by (simp add: dict_has_map_of field_is_def)
next
  case 9
  then show ?thesis using update_field_rx[OF assms(1)] assms(3,4)
    by (simp add: dict_has_map_of field_is_def)
next
  case 10
  then show ?thesis using update_field_ry[OF assms(1)] assms(3,4)
    by (simp add: dict_has_map_of field_is_def)
qed

lemma running_props_split:
  assumes "running_props py g (xs @ ys) = Inr (ss, gf)"
  shows "\<exists>a g1 b. running_props py g xs = Inr (a, g1) \<and> running_props py g1 ys = Inr (b, gf) \<and>
           ss = a @ b \<and> length a = length (filter is_str xs)"
  using assms
proof (induction py g xs arbitrary: ss rule: running_props.induct)
  case (1 py g)
  then show ?case by simp
next
  case (2 py g obj items)
  then show ?case by (auto simp: ebind_Inr_iff)
next
  case (3 py g s items)
  then obtain ss' where 1: "running_props py g (items @ ys) = Inr (ss', gf)" and 2: "ss = g # ss'"
    by (auto simp: ebind_Inr_iff)
  from "3.IH"[OF 1] obtain a g1 b where "running_props py g items = Inr (a, g1)"
    "running_props py g1 ys = Inr (b, gf)" "ss' = a @ b" "length a = length (filter is_str items)"
    by blast
  then show ?case using 2 by simp
qed simp_all

lemma running_props_keeps:
  assumes "running_props py g mid = Inr (c, g3)" and "n \<in> set style_fields"
    and "\<forall>obj'. JObj obj' \<in> set mid \<longrightarrow> \<not> dict_has obj' n" and "field_is py n j g"
  shows "field_is py n j g3"
  using assms
proof (induction py g mid arbitrary: c rule: running_props.induct)
  case (1 py g)
  then show ?case by simp
next
  case (2 py g obj items)
  then obtain g' where u: "update py g obj = Inr g'" and r: "running_props py g' items = Inr (c, g3)"
    by (auto simp: ebind_Inr_iff)
  have "field_is py n j g'"
    using update_keeps_field[OF u "2.prems"(2)] "2.prems"(3,4) by simp
  then show ?case using "2.IH"[OF r "2.prems"(2)] "2.prems"(3) by simp
next
  case (3 py g s items)
  then show ?case by (auto simp: ebind_Inr_iff)
qed simp_all

lemma running_props_field:
  assumes "running_props py g (pre @ JObj obj # mid @ JStr t # post) = Inr (ss, gf)"
    and "n \<in> set style_fields" and "map_of obj n = Some j"
    and "\<forall>obj'. JObj obj' \<in> set mid \<longrightarrow> \<not> dict_has obj' n"
  shows "length (filter is_str (pre @ mid)) < length ss \<and>
         field_is py n j (ss ! length (filter is_str (pre @ mid)))"
proof -
  obtain a g1 b where 1: "running_props py g pre = Inr (a, g1)"
    "running_props py g1 (JObj obj # mid @ JStr t # post) = Inr (b, gf)"
    "ss = a @ b" "length a = length (filter is_str pre)"
    using running_props_split[OF assms(1)] by blast
  obtain g2 where u: "update py g1 obj = Inr g2"
    and 2: "running_props py g2 (mid @ JStr t # post) = Inr (b, gf)"
    using 1(2) by (auto simp: ebind_Inr_iff)
  have f2: "field_is py n j g2"
    by (rule update_sets_field[OF u assms(2,3)])
  obtain c g3 d where 3: "running_props py g2 mid = Inr (c, g3)"
    "running_props py g3 (JStr t # post) = Inr (d, gf)"
    "b = c @ d" "length c = length (filter is_str mid)"
    using running_props_split[OF 2] by blast
  have f3: "field_is py n j g3"
    by (rule running_props_keeps[OF 3(1) assms(2,4) f2])
  obtain d' where d: "d = g3 # d'"
    using 3(2) by (auto simp: ebind_Inr_iff)
  have "ss ! length (filter is_str (pre @ mid)) = g3"
    using 1(3,4) 3(3,4) d by (simp add: nth_append)
  moreover have "length (filter is_str (pre @ mid)) < length ss"
    using 1(3,4) 3(3,4) d by simp
  ultimately show ?thesis using f3 by simp
qed

text \<open>
  C3. After a successful parse, read in the final store:
  \<^item> the snapshots of the keys, in creation order, are the persistent properties recorded
    at the keys' string items: the defaults updated by every object item before the
    string, rows concatenated; each key's angle and rotation origin are those of its
    snapshot, and the snapshots and the running object are pairwise different objects;
  \<^item> a field that an object item sets is what the snapshot of a later key holds, in the
    same or a later row, when no object item in between names that field;
  \<^item> parsing more rows leaves the keys built from the first rows, and the contents of their
    snapshots, as they were.
\<close>

theorem snapshots_persist:
  assumes "from_json py json_layout sp hp0 = Inr (kb, hp)"
  shows "running_props py KbProperties_init (layout_items json_layout)
           = Inr (map (\<lambda>k. hp ! k_properties k) (keys kb), hp ! global_props kb) \<and>
         map k_r (keys kb) = map (\<lambda>k. kb_r (hp ! k_properties k)) (keys kb) \<and>
         map k_u_rx (keys kb) = map (\<lambda>k. kb_rx (hp ! k_properties k)) (keys kb) \<and>
         map k_u_ry (keys kb) = map (\<lambda>k. kb_ry (hp ! k_properties k)) (keys kb) \<and>
         distinct (global_props kb # map k_properties (keys kb)) \<and>
         (\<forall>n pre obj mid t post j.
            n \<in> set style_fields \<and>
            layout_items json_layout = pre @ JObj obj # mid @ JStr t # post \<and>
            map_of obj n = Some j \<and>
            (\<forall>obj'. JObj obj' \<in> set mid \<longrightarrow> \<not> dict_has obj' n) \<longrightarrow>
            length (filter is_str (pre @ mid)) < length (keys kb) \<and>
            field_is py n j (hp ! k_properties (keys kb ! length (filter is_str (pre @ mid))))) \<and>
         (\<forall>rows1 rows2 kb1 hp1.
            json_layout = JArr (rows1 @ rows2) \<and>
            from_json py (JArr rows1) sp hp0 = Inr (kb1, hp1) \<longrightarrow>
            (\<exists>new. keys kb = keys kb1 @ new) \<and>
            list_all (\<lambda>k. hp ! k_properties k = hp1 ! k_properties k) (keys kb1))"
proof -
  note s = from_json_snap[OF assms]
  have rp: "running_props py KbProperties_init (layout_items json_layout)
           = Inr (map (\<lambda>k. hp ! k_properties k) (keys kb), hp ! global_props kb)"
    using s by blast
  have p2: "length (filter is_str (pre @ mid)) < length (keys kb) \<and>
            field_is py n j (hp ! k_properties (keys kb ! length (filter is_str (pre @ mid))))"
    if "n \<in> set style_fields"
      and "layout_items json_layout = pre @ JObj obj # mid @ JStr t # post"
      and "map_of obj n = Some j"
      and "\<forall>obj'. JObj obj' \<in> set mid \<longrightarrow> \<not> dict_has obj' n"
    for n pre obj mid t post j
  proof -
    have "running_props py KbProperties_init (pre @ JObj obj # mid @ JStr t # post)
           = Inr (map (\<lambda>k. hp ! k_properties k) (keys kb), hp ! global_props kb)"
      using rp that(2) by simp
    note both = running_props_field[OF this that(1,3,4)]
    have lt: "length (filter is_str (pre @ mid)) < length (keys kb)"
      using conjunct1[OF both] by (simp only: length_map)
    have "field_is py n j (hp ! k_properties (keys kb ! length (filter is_str (pre @ mid))))"
      using conjunct2[OF both] by (simp only: nth_map[OF lt])
    with lt show ?thesis by blast
  qed
  have p3: "(\<exists>new. keys kb = keys kb1 @ new) \<and>
            list_all (\<lambda>k. hp ! k_properties k = hp1 ! k_properties k) (keys kb1)"
    if "json_layout = JArr (rows1 @ rows2)" and "from_json py (JArr rows1) sp hp0 = Inr (kb1, hp1)"
    for rows1 rows2 kb1 hp1
    using from_json_prefix[OF assms[unfolded that(1)] that(2)] .
  show ?thesis
    using s p2 p3 by blast
qed

theorem snapshots_persist_witness:
  "\<exists>kb hp kb1 hp1 new.
     from_json \<lparr>float_of_str = Map.empty, int_of_str = Map.empty, str_of = (\<lambda>j. [])\<rparr>
       (JArr [JArr [JObj [(''r'', JNum 15)], JStr ''A''],
              JArr [JStr ''B'', JObj [(''r'', JNum 30)], JStr ''C'']]) 19 [] = Inr (kb, hp) \<and>
     map (\<lambda>k. kb_r (hp ! k_properties k)) (keys kb) = [15, 15, 30] \<and>
     map k_r (keys kb) = [15, 15, 30] \<and>
     field_is \<lparr>float_of_str = Map.empty, int_of_str = Map.empty, str_of = (\<lambda>j. [])\<rparr>
       ''r'' (JNum 15) (hp ! k_properties (keys kb ! 1)) \<and>
     from_json \<lparr>float_of_str = Map.empty, int_of_str = Map.empty, str_of = (\<lambda>j. [])\<rparr>
       (JArr [JArr [JObj [(''r'', JNum 15)], JStr ''A'']]) 19 [] = Inr (kb1, hp1) \<and>
     keys kb = keys kb1 @ new \<and>
     list_all (\<lambda>k. hp ! k_properties k = hp1 ! k_properties k) (keys kb1)"
proof -
  let ?py = "\<lparr>float_of_str = Map.empty, int_of_str = Map.empty, str_of = (\<lambda>j. [])\<rparr>"
  let ?row1 = "JArr [JObj [(''r'', JNum 15)], JStr ''A'']"
  let ?row2 = "JArr [JStr ''B'', JObj [(''r'', JNum 30)], JStr ''C'']"
  have kp: "KeyProperties_from_json ?py [(''r'', JNum v)] = Inr KeyProperties_init" for v
    by (simp add: KeyProperties_from_json_def on_field_def dict_has_def)
  have up: "update ?py g [(''r'', JNum v)] = Inr (g\<lparr>kb_r := v\<rparr>)" for g v
    by (simp add: update_def on_field_def dict_has_def dict_get_def)
  have "\<exists>kb hp. from_json ?py (JArr ([?row1] @ [?row2])) 19 [] = Inr (kb, hp)"
    by (simp add: from_json_def py_iter_def start_state from_json_row_def from_json_item_def
        add_key_def KLEKey_init_one C_is_not_nl add_row_def Let_def kp update_at_def up
        dict_has_def)
  then obtain kb hp where run: "from_json ?py (JArr ([?row1] @ [?row2])) 19 [] = Inr (kb, hp)"
    by blast
  have "\<exists>kb1 hp1. from_json ?py (JArr [?row1]) 19 [] = Inr (kb1, hp1)"
    by (simp add: from_json_def py_iter_def start_state from_json_row_def from_json_item_def
        add_key_def KLEKey_init_one C_is_not_nl add_row_def Let_def kp update_at_def up
        dict_has_def)
  then obtain kb1 hp1 where run1: "from_json ?py (JArr [?row1]) 19 [] = Inr (kb1, hp1)"
    by blast
  note s = snapshots_persist[OF run]
  have rp: "running_props ?py KbProperties_init (layout_items (JArr ([?row1] @ [?row2])))
              = Inr (map (\<lambda>k. hp ! k_properties k) (keys kb), hp ! global_props kb)"
    and r: "map k_r (keys kb) = map (\<lambda>k. kb_r (hp ! k_properties k)) (keys kb)"
    using s by blast+
  have items: "layout_items (JArr ([?row1] @ [?row2])) =
      [] @ JObj [(''r'', JNum 15)] # [JStr ''A''] @ JStr ''B'' # [JObj [(''r'', JNum 30)], JStr ''C'']"
    by (simp add: layout_items_def row_items_def py_iter_def)
  note p2 = s[THEN conjunct2, THEN conjunct2, THEN conjunct2, THEN conjunct2, THEN conjunct2,
               THEN conjunct1, rule_format,
               of "''r''" "[]" "[(''r'', JNum 15)]" "[JStr ''A'']" "''B''"
                  "[JObj [(''r'', JNum 30)], JStr ''C'']" "JNum 15"]
  have "''r'' \<in> set style_fields \<and>
        layout_items (JArr ([?row1] @ [?row2])) =
          [] @ JObj [(''r'', JNum 15)] # [JStr ''A''] @ JStr ''B'' # [JObj [(''r'', JNum 30)], JStr ''C''] \<and>
        map_of [(''r'', JNum 15)] ''r'' = Some (JNum 15) \<and>
        (\<forall>obj'. JObj obj' \<in> set [JStr ''A''] \<longrightarrow> \<not> dict_has obj' ''r'')"
    using items by (simp add: style_fields_def)
  from p2[OF this] have later: "field_is ?py ''r'' (JNum 15) (hp ! k_properties (keys kb ! 1))"
    by simp
  note p3 = s[THEN conjunct2, THEN conjunct2, THEN conjunct2, THEN conjunct2, THEN conjunct2,
               THEN conjunct2, rule_format, of "[?row1]" "[?row2]" kb1 hp1]
  have "JArr ([?row1] @ [?row2]) = JArr ([?row1] @ [?row2]) \<and>
        from_json ?py (JArr [?row1]) 19 [] = Inr (kb1, hp1)"
    using run1 by simp
  from p3[OF this] obtain new where stable: "keys kb = keys kb1 @ new"
    "list_all (\<lambda>k. hp ! k_properties k = hp1 ! k_properties k) (keys kb1)"
    by blast
  have eval: "running_props ?py KbProperties_init (layout_items (JArr ([?row1] @ [?row2])))
          = Inr ([KbProperties_init\<lparr>kb_r := 15\<rparr>, KbProperties_init\<lparr>kb_r := 15\<rparr>,
                  KbProperties_init\<lparr>kb_r := 30\<rparr>], KbProperties_init\<lparr>kb_r := 30\<rparr>)"
    unfolding items by (simp add: up)
  have "Inr (map (\<lambda>k. hp ! k_properties k) (keys kb), hp ! global_props kb)
          = (Inr ([KbProperties_init\<lparr>kb_r := 15\<rparr>, KbProperties_init\<lparr>kb_r := 15\<rparr>,
                  KbProperties_init\<lparr>kb_r := 30\<rparr>], KbProperties_init\<lparr>kb_r := 30\<rparr>)
             :: error + KbProperties list \<times> KbProperties)"
    by (rule trans[OF rp[symmetric] eval])
  then have "map (\<lambda>k. hp ! k_properties k) (keys kb)
          = [KbProperties_init\<lparr>kb_r := 15\<rparr>, KbProperties_init\<lparr>kb_r := 15\<rparr>,
             KbProperties_init\<lparr>kb_r := 30\<rparr>] \<and>
        hp ! global_props kb = KbProperties_init\<lparr>kb_r := 30\<rparr>"
    by (simp only: sum.inject prod.inject)
  then have "map (\<lambda>k. hp ! k_properties k) (keys kb)
          = [KbProperties_init\<lparr>kb_r := 15\<rparr>, KbProperties_init\<lparr>kb_r := 15\<rparr>,
             KbProperties_init\<lparr>kb_r := 30\<rparr>]"
    by (rule conjunct1)
  then have "map kb_r (map (\<lambda>k. hp ! k_properties k) (keys kb)) =
          map kb_r [KbProperties_init\<lparr>kb_r := 15\<rparr>, KbProperties_init\<lparr>kb_r := 15\<rparr>,
             KbProperties_init\<lparr>kb_r := 30\<rparr>]"
    by (rule arg_cong)
  then have "map kb_r (map (\<lambda>k. hp ! k_properties k) (keys kb)) = [15, 15, 30]"
    by simp
  then have snaps: "map (\<lambda>k. kb_r (hp ! k_properties k)) (keys kb) = [15, 15, 30]"
    by (simp add: comp_def)
  have kr: "map k_r (keys kb) = [15, 15, 30]"
    by (rule trans[OF r snaps])
  have run': "from_json ?py (JArr [?row1, ?row2]) 19 [] = Inr (kb, hp)"
    using run by simp
  show ?thesis
    by (rule exI[of _ kb], rule exI[of _ hp], rule exI[of _ kb1], rule exI[of _ hp1],
        rule exI[of _ new], intro conjI, (rule run' snaps kr later run1 stable)+)
qed

end
